theory Spec2Isabelle
  imports Complex_Main
begin

section \<open>Numbers, errors and arrays of the notebook\<close>

text \<open>
  The notebook \<^verbatim>\<open>Compression_Example.ipynb\<close> computes with NumPy \<^verbatim>\<open>float64\<close> values.
  A value is modelled as a finite real number or one of the three special values of
  IEEE arithmetic. On finite values the operations are the exact real ones: rounding,
  overflow to infinity and the sign of zero are not modelled. On the special values the
  operations follow IEEE 754 as NumPy applies it to scalars and arrays (no exception is
  raised, the result is \<open>inf\<close> or \<open>nan\<close>). The theorems of this theory are about the
  control flow of the functions, the exceptions they raise, the shapes of the arrays and
  the special values; none of them is about the size of a rounding error.
\<close>

datatype npfloat = Fin real | PInf | NInf | NaN

fun fl_add :: "npfloat \<Rightarrow> npfloat \<Rightarrow> npfloat" where
  "fl_add (Fin a) (Fin b) = Fin (a + b)"
| "fl_add NaN y = NaN"
| "fl_add x NaN = NaN"
| "fl_add PInf NInf = NaN"
| "fl_add NInf PInf = NaN"
| "fl_add PInf y = PInf"
| "fl_add x PInf = PInf"
| "fl_add NInf y = NInf"
| "fl_add x NInf = NInf"

fun fl_mul :: "npfloat \<Rightarrow> npfloat \<Rightarrow> npfloat" where
  "fl_mul (Fin a) (Fin b) = Fin (a * b)"
| "fl_mul NaN y = NaN"
| "fl_mul x NaN = NaN"
| "fl_mul PInf (Fin b) = (if b = 0 then NaN else if 0 < b then PInf else NInf)"
| "fl_mul NInf (Fin b) = (if b = 0 then NaN else if 0 < b then NInf else PInf)"
| "fl_mul (Fin a) PInf = (if a = 0 then NaN else if 0 < a then PInf else NInf)"
| "fl_mul (Fin a) NInf = (if a = 0 then NaN else if 0 < a then NInf else PInf)"
| "fl_mul PInf PInf = PInf"
| "fl_mul NInf NInf = PInf"
| "fl_mul PInf NInf = NInf"
| "fl_mul NInf PInf = NInf"

fun fl_div :: "npfloat \<Rightarrow> npfloat \<Rightarrow> npfloat" where
  "fl_div (Fin a) (Fin b) =
     (if b \<noteq> 0 then Fin (a / b)
      else if a = 0 then NaN else if 0 < a then PInf else NInf)"
| "fl_div NaN y = NaN"
| "fl_div x NaN = NaN"
| "fl_div (Fin a) y = Fin 0"
| "fl_div PInf (Fin b) = (if 0 \<le> b then PInf else NInf)"
| "fl_div NInf (Fin b) = (if 0 \<le> b then NInf else PInf)"
| "fl_div x y = NaN"

text \<open>The comparisons \<^verbatim>\<open>x > 0\<close> and \<^verbatim>\<open>x < y\<close>: every comparison with \<open>nan\<close> is false.\<close>

fun fl_gt0 :: "npfloat \<Rightarrow> bool" where
  "fl_gt0 (Fin a) = (0 < a)"
| "fl_gt0 PInf = True"
| "fl_gt0 NInf = False"
| "fl_gt0 NaN = False"

fun fl_less :: "npfloat \<Rightarrow> npfloat \<Rightarrow> bool" where
  "fl_less (Fin a) (Fin b) = (a < b)"
| "fl_less NaN y = False"
| "fl_less x NaN = False"
| "fl_less x NInf = False"
| "fl_less NInf y = True"
| "fl_less PInf y = False"
| "fl_less (Fin a) PInf = True"

text \<open>
  \<^verbatim>\<open>x**-0.5\<close> on a \<^verbatim>\<open>float64\<close> scalar: the inverse square root of a positive
  number, \<open>inf\<close> at zero, \<open>nan\<close> at a negative number.
\<close>

fun pow_neg_half :: "npfloat \<Rightarrow> npfloat" where
  "pow_neg_half (Fin a) =
     (if 0 < a then Fin (1 / sqrt a) else if a = 0 then PInf else NaN)"
| "pow_neg_half PInf = Fin 0"
| "pow_neg_half NInf = Fin 0"
| "pow_neg_half NaN = NaN"

fun fl_sqrt :: "npfloat \<Rightarrow> npfloat" where
  "fl_sqrt (Fin a) = (if 0 \<le> a then Fin (sqrt a) else NaN)"
| "fl_sqrt PInf = PInf"
| "fl_sqrt NInf = NaN"
| "fl_sqrt NaN = NaN"

fun is_finite :: "npfloat \<Rightarrow> bool" where
  "is_finite (Fin a) = True"
| "is_finite x = False"

text \<open>
  \<^verbatim>\<open>np.isclose\<close> with its default tolerances \<^verbatim>\<open>rtol=1e-05\<close>, \<^verbatim>\<open>atol=1e-08\<close>:
  two finite values are close when \<open>|a - b| \<le> atol + rtol * |b|\<close>; an infinity is close
  to itself only; \<open>nan\<close> is close to nothing.
\<close>

fun isclose :: "npfloat \<Rightarrow> npfloat \<Rightarrow> bool" where
  "isclose (Fin a) (Fin b) = (\<bar>a - b\<bar> \<le> 1 / 10 ^ 8 + (1 / 10 ^ 5) * \<bar>b\<bar>)"
| "isclose PInf PInf = True"
| "isclose NInf NInf = True"
| "isclose x y = False"

text \<open>
  The exceptions the notebook's functions can raise. A \<^verbatim>\<open>NameError\<close> carries the unbound
  name, a \<^verbatim>\<open>KeyError\<close> the missing key, a \<^verbatim>\<open>ValueError\<close> the call that raised it
  (\<^verbatim>\<open>min\<close> of an empty list, \<^verbatim>\<open>np.dot\<close> of shapes that do not fit, \<^verbatim>\<open>np.allclose\<close> of
  shapes that cannot be broadcast) and an \<^verbatim>\<open>AssertionError\<close> the expression of the
  \<^verbatim>\<open>assert\<close> statement that failed.
\<close>

datatype error =
    NameError string
  | KeyError string
  | IndexError
  | ValueError string
  | AssertionError string
  | LinAlgError

text \<open>
  A vector is a list, a two-dimensional array the list of its rows (all of one length),
  and the \<open>(L+1, NS, NS)\<close> array of l-slices a list of matrices.
\<close>

type_synonym vec = "npfloat list"
type_synonym mat = "npfloat list list"

definition nrows :: "mat \<Rightarrow> nat" where
  "nrows A = length A"

definition ncols :: "mat \<Rightarrow> nat" where
  "ncols A = (case A of [] \<Rightarrow> 0 | r # _ \<Rightarrow> length r)"

definition zeros :: "nat \<Rightarrow> nat \<Rightarrow> mat" where
  "zeros m n = replicate m (replicate n (Fin 0))"

definition zeros3 :: "nat \<Rightarrow> nat \<Rightarrow> nat \<Rightarrow> mat list" where
  "zeros3 k m n = replicate k (zeros m n)"

text \<open>
  A \<^verbatim>\<open>for\<close> loop whose body may raise: the state is threaded through the body, and
  the first exception ends the loop.
\<close>

primrec foldM :: "('a \<Rightarrow> 's \<Rightarrow> error + 's) \<Rightarrow> 'a list \<Rightarrow> 's \<Rightarrow> error + 's" where
  "foldM f [] s = Inr s"
| "foldM f (x # xs) s = (case f x s of Inl e \<Rightarrow> Inl e | Inr s' \<Rightarrow> foldM f xs s')"

section \<open>Splitting the power spectrum into l-slices\<close>

text \<open>
  \<^verbatim>\<open>
  def ps2slices(ps, NS, L):
      l_slices = np.zeros((L+1, NS, NS))
      i = 0
      c = 2**-0.5
      for n1 in range(0, NS):
          for n2 in range(0, n1+1):
              for l in range(0, L+1):
                  p = ps[(L+1)*i+l]
                  if n1 == n2:
                      l_slices[l][n1][n2] = p
                  else:
                      p = p * c
                      l_slices[l][n1][n2] = p
                      l_slices[l][n2][n1] = p
              i += 1
      return l_slices
  \<close>
  \<open>NS\<close> and \<open>L\<close> are counts (natural numbers). Reading \<^verbatim>\<open>ps\<close> past its end raises
  \<^verbatim>\<open>IndexError\<close>; the function makes no other check of the length of \<^verbatim>\<open>ps\<close>.
\<close>

definition c_half :: npfloat where
  "c_half = Fin (1 / sqrt 2)"

definition set_entry :: "mat list \<Rightarrow> nat \<Rightarrow> nat \<Rightarrow> nat \<Rightarrow> npfloat \<Rightarrow> mat list" where
  "set_entry s l a b v = s[l := (s ! l)[a := (s ! l ! a)[b := v]]]"

definition ps2slices_l ::
  "vec \<Rightarrow> nat \<Rightarrow> nat \<Rightarrow> nat \<Rightarrow> nat \<Rightarrow> nat \<Rightarrow> mat list \<Rightarrow> error + mat list" where
  "ps2slices_l ps L n1 n2 i l s =
     (if (L + 1) * i + l < length ps then
        (let p = ps ! ((L + 1) * i + l) in
         if n1 = n2 then Inr (set_entry s l n1 n2 p)
         else (let p' = fl_mul p c_half in
               Inr (set_entry (set_entry s l n1 n2 p') l n2 n1 p')))
      else Inl IndexError)"

definition ps2slices_n2 ::
  "vec \<Rightarrow> nat \<Rightarrow> nat \<Rightarrow> nat \<Rightarrow> mat list \<times> nat \<Rightarrow> error + mat list \<times> nat" where
  "ps2slices_n2 ps L n1 n2 st =
     (case foldM (ps2slices_l ps L n1 n2 (snd st)) [0..<L + 1] (fst st) of
        Inl e \<Rightarrow> Inl e
      | Inr s' \<Rightarrow> Inr (s', snd st + 1))"

definition ps2slices_n1 ::
  "vec \<Rightarrow> nat \<Rightarrow> nat \<Rightarrow> mat list \<times> nat \<Rightarrow> error + mat list \<times> nat" where
  "ps2slices_n1 ps L n1 st = foldM (ps2slices_n2 ps L n1) [0..<n1 + 1] st"

definition ps2slices :: "vec \<Rightarrow> nat \<Rightarrow> nat \<Rightarrow> error + mat list" where
  "ps2slices ps NS L =
     (case foldM (ps2slices_n1 ps L) [0..<NS] (zeros3 (L + 1) NS NS, 0) of
        Inl e \<Rightarrow> Inl e
      | Inr st \<Rightarrow> Inr (fst st))"

section \<open>Array operations of NumPy used by the notebook\<close>

definition ebind :: "error + 'a \<Rightarrow> ('a \<Rightarrow> error + 'b) \<Rightarrow> error + 'b" where
  "ebind m f = (case m of Inl e \<Rightarrow> Inl e | Inr x \<Rightarrow> f x)"

primrec mapM :: "('a \<Rightarrow> error + 'b) \<Rightarrow> 'a list \<Rightarrow> error + 'b list" where
  "mapM f [] = Inr []"
| "mapM f (x # xs) =
     (case f x of Inl e \<Rightarrow> Inl e
      | Inr y \<Rightarrow> (case mapM f xs of Inl e \<Rightarrow> Inl e | Inr ys \<Rightarrow> Inr (y # ys)))"

text \<open>\<^verbatim>\<open>assert b\<close>\<close>

definition py_assert :: "bool \<Rightarrow> string \<Rightarrow> error + unit" where
  "py_assert b what = (if b then Inr () else Inl (AssertionError what))"

definition col :: "mat \<Rightarrow> nat \<Rightarrow> vec" where
  "col A j = map (\<lambda>r. r ! j) A"

text \<open>\<^verbatim>\<open>A.T\<close>\<close>

definition transpose_m :: "mat \<Rightarrow> mat" where
  "transpose_m A = map (col A) [0..<ncols A]"

text \<open>\<^verbatim>\<open>A[:, :k]\<close>: a slice past the last column stops at the last column.\<close>

definition first_cols :: "nat \<Rightarrow> mat \<Rightarrow> mat" where
  "first_cols k A = map (take k) A"

definition fl_sum :: "vec \<Rightarrow> npfloat" where
  "fl_sum xs = foldr fl_add xs (Fin 0)"

definition vdot :: "vec \<Rightarrow> vec \<Rightarrow> npfloat" where
  "vdot u v = fl_sum (map2 fl_mul u v)"

text \<open>\<^verbatim>\<open>np.dot(A, B)\<close> of two-dimensional arrays raises \<^verbatim>\<open>ValueError\<close> when the
  number of columns of \<open>A\<close> is not the number of rows of \<open>B\<close>.\<close>

definition dot :: "mat \<Rightarrow> mat \<Rightarrow> error + mat" where
  "dot A B =
     (if ncols A = nrows B
      then Inr (map (\<lambda>r. map (\<lambda>j. vdot r (col B j)) [0..<ncols B]) A)
      else Inl (ValueError ''np.dot''))"

text \<open>\<^verbatim>\<open>np.diag(v)\<close> of a one-dimensional \<open>v\<close>\<close>

definition diag_m :: "vec \<Rightarrow> mat" where
  "diag_m v = map (\<lambda>i. (replicate (length v) (Fin 0))[i := v ! i]) [0..<length v]"

text \<open>\<^verbatim>\<open>C[inds,:]\<close> and \<^verbatim>\<open>C[:,inds]\<close> with a list of non-negative indices: an index
  past the end raises \<^verbatim>\<open>IndexError\<close>.\<close>

definition take_rows :: "nat list \<Rightarrow> mat \<Rightarrow> error + mat" where
  "take_rows inds A =
     (if list_all (\<lambda>i. i < nrows A) inds then Inr (map (\<lambda>i. A ! i) inds) else Inl IndexError)"

definition take_cols :: "nat list \<Rightarrow> mat \<Rightarrow> error + mat" where
  "take_cols inds A =
     (if list_all (\<lambda>j. j < ncols A) inds then Inr (map (\<lambda>r. map (\<lambda>j. r ! j) inds) A)
      else Inl IndexError)"

text \<open>
  \<^verbatim>\<open>np.allclose(A, B)\<close>: the two arrays are broadcast to a common shape (an axis of
  length one is repeated), \<^verbatim>\<open>ValueError\<close> when they cannot be, and then every pair of
  entries has to be close.
\<close>

definition bdim :: "nat \<Rightarrow> nat \<Rightarrow> nat option" where
  "bdim m n = (if m = n then Some m else if m = 1 then Some n else if n = 1 then Some m else None)"

definition broadcast_to :: "nat \<Rightarrow> nat \<Rightarrow> mat \<Rightarrow> mat" where
  "broadcast_to m n A =
     (let A' = map (\<lambda>r. if length r = n then r else replicate n (hd r)) A
      in if length A' = m then A' else replicate m (hd A'))"

definition allclose :: "mat \<Rightarrow> mat \<Rightarrow> error + bool" where
  "allclose A B =
     (case (bdim (nrows A) (nrows B), bdim (ncols A) (ncols B)) of
        (Some m, Some n) \<Rightarrow>
          Inr (list_all (\<lambda>(r, r'). list_all (\<lambda>(x, y). isclose x y) (zip r r'))
                 (zip (broadcast_to m n A) (broadcast_to m n B)))
      | _ \<Rightarrow> Inl (ValueError ''np.allclose''))"

text \<open>Python's \<^verbatim>\<open>min\<close> of a list: \<^verbatim>\<open>ValueError\<close> on the empty list, otherwise the
  first element that none of the others is smaller than.\<close>

definition py_min :: "vec \<Rightarrow> error + npfloat" where
  "py_min xs =
     (case xs of
        [] \<Rightarrow> Inl (ValueError ''min'')
      | x # rest \<Rightarrow> Inr (foldl (\<lambda>m y. if fl_less y m then y else m) x rest))"

text \<open>
  The Euclidean norm in exact arithmetic. \<^verbatim>\<open>np.linalg.norm\<close> itself is a library routine
  that rounds and can overflow (the squares of large entries are \<open>inf\<close>), so it is an
  argument of the model of \<^verbatim>\<open>compress_ps\<close>. \<open>norm2\<close> is the value it rounds when nothing
  overflows, and stands for it in the examples, whose entries are small integers.
\<close>

type_synonym norm_fun = "vec \<Rightarrow> npfloat"

definition norm2 :: norm_fun where
  "norm2 v = fl_sqrt (fl_sum (map (\<lambda>x. fl_mul x x) v))"

definition is_zero_mat :: "mat \<Rightarrow> bool" where
  "is_zero_mat A = list_all (list_all (\<lambda>x. x = Fin 0)) A"

definition finite_mat :: "mat \<Rightarrow> bool" where
  "finite_mat A = list_all (list_all is_finite) A"

text \<open>A matrix with \<open>m\<close> rows of length \<open>n\<close>.\<close>

definition has_shape :: "nat \<Rightarrow> nat \<Rightarrow> mat \<Rightarrow> bool" where
  "has_shape m n A = (length A = m \<and> list_all (\<lambda>r. length r = n) A)"

definition symmetric_m :: "mat \<Rightarrow> bool" where
  "symmetric_m A = (transpose_m A = A)"

section \<open>The compression functions\<close>

text \<open>
  The \<^verbatim>\<open>params\<close> dictionary maps names to values; the three entries the functions
  read hold Python integers (counts), on which \<^verbatim>\<open>round\<close> is the identity. A missing
  key raises \<^verbatim>\<open>KeyError\<close>.
\<close>

type_synonym params = "string \<rightharpoonup> nat"

definition lookup :: "params \<Rightarrow> string \<Rightarrow> error + nat" where
  "lookup params k = (case params k of None \<Rightarrow> Inl (KeyError k) | Some v \<Rightarrow> Inr v)"

text \<open>
  \<^verbatim>\<open>np.dot(W.T, Pl)\<close> with \<^verbatim>\<open>W = random_key[:,:2*l+1]\<close>: the compression of one slice,
  as \<^verbatim>\<open>compress_ps\<close> and the driver cell both write it.
\<close>

definition compress_slice :: "mat \<Rightarrow> nat \<Rightarrow> mat \<Rightarrow> error + mat" where
  "compress_slice random_key l Pl = dot (transpose_m (first_cols (2 * l + 1) random_key)) Pl"

text \<open>
  \<^verbatim>\<open>
  def compress_ps(ps, params, random_key, norm=True):
      N = round(params["n_max"])
      L = round(params["l_max"])
      S = round(params["n_Z"])
      l_slices = split_ps2(ps, N*S, L)
      short = []
      for l in range(0, L+1):
          Pl = l_slices[l]
          W = random_key[:,:2*l+1]
          short += list(np.dot(W.T, Pl).flatten())
      short = np.array(short)
      if norm:
          short = short/np.linalg.norm(short)
      return short
  \<close>
  The function calls the global name \<^verbatim>\<open>split_ps2\<close>. What the name is bound to when the
  call runs is an argument of the model: \<open>None\<close> when no cell has defined it. The
  library routine \<^verbatim>\<open>np.linalg.norm\<close> is the first argument of the model. The keyword
  argument \<^verbatim>\<open>norm\<close> is \<open>norm_arg\<close>; a call that leaves it out passes \<open>True\<close>.
\<close>

type_synonym splitter = "vec \<Rightarrow> nat \<Rightarrow> nat \<Rightarrow> error + mat list"

definition compress_ps_l :: "mat \<Rightarrow> mat list \<Rightarrow> nat \<Rightarrow> vec \<Rightarrow> error + vec" where
  "compress_ps_l random_key l_slices l short =
     (if l < length l_slices
      then ebind (compress_slice random_key l (l_slices ! l)) (\<lambda>M. Inr (short @ concat M))
      else Inl IndexError)"

definition compress_ps ::
  "norm_fun \<Rightarrow> splitter option \<Rightarrow> vec \<Rightarrow> params \<Rightarrow> mat \<Rightarrow> bool \<Rightarrow> error + vec" where
  "compress_ps linalg_norm split_ps2_binding ps params random_key norm_arg =
     ebind (lookup params ''n_max'') (\<lambda>N.
     ebind (lookup params ''l_max'') (\<lambda>L.
     ebind (lookup params ''n_Z'') (\<lambda>S.
       case split_ps2_binding of
         None \<Rightarrow> Inl (NameError ''split_ps2'')
       | Some split_ps2 \<Rightarrow>
           ebind (split_ps2 ps (N * S) L) (\<lambda>l_slices.
           ebind (foldM (compress_ps_l random_key l_slices) [0..<L + 1] []) (\<lambda>short.
             if norm_arg then Inr (map (\<lambda>x. fl_div x (linalg_norm short)) short)
             else Inr short)))))"

text \<open>
  The notebook defines \<^verbatim>\<open>dataset_to_params\<close>, \<^verbatim>\<open>params2quippy_str\<close>, \<^verbatim>\<open>compress_ps\<close>,
  \<^verbatim>\<open>ps2slices\<close>, \<^verbatim>\<open>gen_random_key\<close> and \<^verbatim>\<open>uncompress_slice\<close>, and imports no
  \<^verbatim>\<open>split_ps2\<close>: in the notebook's namespace the name is unbound.
\<close>

definition notebook_split_ps2 :: "splitter option" where
  "notebook_split_ps2 = None"

text \<open>
  \<^verbatim>\<open>
  def gen_random_key(params):
      N = round(params["n_max"])
      L = round(params["l_max"])
      S = round(params["n_Z"])
      ncols = min([N*S, 2*L+1])
      nrows = N*S
      return 0.1 + 0.8 *np.random.sample(size=(nrows, ncols))
  \<close>
  The random samples (each in the interval from 0 to 1) are an argument of the model.
\<close>

definition gen_random_key :: "params \<Rightarrow> (nat \<Rightarrow> nat \<Rightarrow> real) \<Rightarrow> error + mat" where
  "gen_random_key params sample =
     ebind (lookup params ''n_max'') (\<lambda>N.
     ebind (lookup params ''l_max'') (\<lambda>L.
     ebind (lookup params ''n_Z'') (\<lambda>S.
       let ncols = min (N * S) (2 * L + 1); nrows = N * S
       in Inr (map (\<lambda>i. map (\<lambda>j. Fin (1 / 10 + 8 / 10 * sample i j)) [0..<ncols])
                 [0..<nrows]))))"

text \<open>
  The driver cell compresses the slices of one structure and counts the entries:
  \<^verbatim>\<open>
  assert len(ps) == round(0.5*N*S*(N*S+1)*(L+1))
  full_slices = ps2slices(ps, N*S, L)
  ps2 = full_slices.flatten()
  assert abs(np.linalg.norm(ps2)-1) < 1e-6
  comp_slices = [np.dot(RK[:,:2*l+1].T, Pl) for l, Pl in enumerate(full_slices)]
  n_short = sum([len(x.flatten()) for x in comp_slices])
  assert n_short == N*S*(L+1)**2
  \<close>
  The second assertion is about the values of the descriptor (a normalised vector)
  and plays no part in the count; the other steps are the three definitions below and
  \<open>py_assert\<close>.
\<close>

text \<open>The asserted length \<^verbatim>\<open>round(0.5*N*S*(N*S+1)*(L+1))\<close>, with \<open>NS\<close> for \<open>N*S\<close>: the
  product is even, so nothing is rounded.\<close>

definition ps_len :: "nat \<Rightarrow> nat \<Rightarrow> nat" where
  "ps_len NS L = NS * (NS + 1) * (L + 1) div 2"

definition comp_slices :: "mat \<Rightarrow> mat list \<Rightarrow> error + mat list" where
  "comp_slices RK full_slices =
     mapM (\<lambda>(l, Pl). compress_slice RK l Pl) (enumerate 0 full_slices)"

definition n_short :: "mat list \<Rightarrow> nat" where
  "n_short cs = sum_list (map (\<lambda>x. length (concat x)) cs)"

section \<open>Undoing the compression\<close>

text \<open>
  \<^verbatim>\<open>
  def get_IR(A):
      T = []
      inds = []
      cur_rank = 0
      for i, row in enumerate(A):
          T.append(row)
          rank = np.linalg.matrix_rank(T)
          if rank > cur_rank:
              cur_rank = rank
              inds.append(i)
          else:
              T = T[:-1]
      return T, inds
  \<close>
  \<^verbatim>\<open>np.linalg.matrix_rank\<close> and \<^verbatim>\<open>np.linalg.eigh\<close> are LAPACK routines outside the
  notebook: they are arguments of the model, and each may raise.
\<close>

type_synonym rank_fun = "mat \<Rightarrow> error + nat"
type_synonym eigh_fun = "mat \<Rightarrow> error + vec \<times> mat"

definition get_IR_step ::
  "rank_fun \<Rightarrow> nat \<times> vec \<Rightarrow> mat \<times> nat list \<times> nat \<Rightarrow> error + mat \<times> nat list \<times> nat" where
  "get_IR_step matrix_rank ir st =
     (case st of (T, inds, cur_rank) \<Rightarrow>
        ebind (matrix_rank (T @ [snd ir])) (\<lambda>rank.
          if rank > cur_rank then Inr (T @ [snd ir], inds @ [fst ir], rank)
          else Inr (T, inds, cur_rank)))"

definition get_IR :: "rank_fun \<Rightarrow> mat \<Rightarrow> error + mat \<times> nat list" where
  "get_IR matrix_rank A =
     ebind (foldM (get_IR_step matrix_rank) (enumerate 0 A) ([], [], 0))
       (\<lambda>st. case st of (T, inds, cur_rank) \<Rightarrow> Inr (T, inds))"

text \<open>
  The body of \<^verbatim>\<open>uncompress_slice\<close> in three parts. The eigenvalue step:
  \<^verbatim>\<open>
  roots = [x**-0.5 for x in vals]
  min_pos = min([x for x in roots if x > 0])
  roots = [x if x > 0 else min_pos*1e-15 for x in roots]
  \<close>
\<close>

definition clamp_roots :: "vec \<Rightarrow> error + vec" where
  "clamp_roots vals =
     (let roots = map pow_neg_half vals in
      ebind (py_min (filter fl_gt0 roots)) (\<lambda>min_pos.
        Inr (map (\<lambda>x. if fl_gt0 x then x else fl_mul min_pos (Fin (1 / 10 ^ 15))) roots)))"

text \<open>
  The reduced Gram matrix:
  \<^verbatim>\<open>
  C = np.dot(WtP, W)
  C = C[inds,:][:,inds]
  \<close>
\<close>

definition reduced_gram :: "mat \<Rightarrow> mat \<Rightarrow> nat list \<Rightarrow> error + mat" where
  "reduced_gram WtP W inds =
     ebind (dot WtP W) (\<lambda>C. ebind (take_rows inds C) (\<lambda>C'. take_cols inds C'))"

text \<open>
  The reconstruction, from the eigendecomposition to \<open>P\<close> (before the last assertion):
  \<^verbatim>\<open>
  vals, Ut = np.linalg.eigh(C)
  U = Ut.T
  Lambda = np.diag(vals)
  R = np.dot(U.T, np.dot(Lambda, U))
  assert np.allclose(R, C)
  roots = ...
  D = np.diag(roots)
  X = np.dot(D, np.dot(U, T))
  P = np.dot(X.T, X)
  \<close>
\<close>

definition reconstruct :: "eigh_fun \<Rightarrow> mat \<Rightarrow> mat \<Rightarrow> error + mat" where
  "reconstruct eigh C T =
     ebind (eigh C) (\<lambda>ve. case ve of (vals, Ut) \<Rightarrow>
       let U = transpose_m Ut; Lambda = diag_m vals in
       ebind (dot Lambda U) (\<lambda>LU.
       ebind (dot (transpose_m U) LU) (\<lambda>R.
       ebind (allclose R C) (\<lambda>ok.
       ebind (py_assert ok ''np.allclose(R, C)'') (\<lambda>_.
       ebind (clamp_roots vals) (\<lambda>roots.
       let D = diag_m roots in
       ebind (dot U T) (\<lambda>UT.
       ebind (dot D UT) (\<lambda>X.
         dot (transpose_m X) X))))))))"

text \<open>
  \<^verbatim>\<open>
  def uncompress_slice(WtP, l, RK):
      W = RK[:, :2*l+1]
      T, inds = get_IR(WtP)
      if len(inds) == 0:
          assert np.linalg.matrix_rank(WtP) == 0
          NS = W.shape[0]
          return np.zeros((NS,NS))
      C = np.dot(WtP, W)
      C = C[inds,:][:,inds]
      ...
      P = np.dot(X.T, X)
      assert np.allclose(np.dot(W.T, P), WtP)
      return P
  \<close>
\<close>

definition uncompress_slice :: "rank_fun \<Rightarrow> eigh_fun \<Rightarrow> mat \<Rightarrow> nat \<Rightarrow> mat \<Rightarrow> error + mat" where
  "uncompress_slice matrix_rank eigh WtP l RK =
     (let W = first_cols (2 * l + 1) RK in
      ebind (get_IR matrix_rank WtP) (\<lambda>ti. case ti of (T, inds) \<Rightarrow>
        if length inds = 0 then
          ebind (matrix_rank WtP) (\<lambda>r.
          ebind (py_assert (r = 0) ''np.linalg.matrix_rank(WtP) == 0'') (\<lambda>_.
            let NS = nrows W in Inr (zeros NS NS)))
        else
          ebind (reduced_gram WtP W inds) (\<lambda>C.
          ebind (reconstruct eigh C T) (\<lambda>P.
          ebind (dot (transpose_m W) P) (\<lambda>WtP'.
          ebind (allclose WtP' WtP) (\<lambda>ok.
          ebind (py_assert ok ''np.allclose(np.dot(W.T, P), WtP)'') (\<lambda>_.
            Inr P)))))))"

section \<open>The compressed slice in the words of the specification\<close>

text \<open>
  The specification describes the compressed slice as the matrix product \<open>W\<^sub>l\<^sup>T P\<^sub>l\<close>,
  where \<open>W\<^sub>l\<close> is the first \<open>2l+1\<close> columns of the key. The definition below follows
  these words and not the code: the entry \<open>(a, b)\<close> of the product is the sum over the
  rows \<open>q\<close> of the key of \<open>W[q][a] * P\<^sub>l[q][b]\<close>, for each of the first \<open>2l+1\<close> columns
  \<open>a\<close> of the key (all of them when the key has fewer) and each column \<open>b\<close> of the
  slice. It is a second definition, to be compared with \<open>compress_slice\<close>, which is the
  one translated from the code.
\<close>

definition projected_slice :: "mat \<Rightarrow> nat \<Rightarrow> mat \<Rightarrow> mat" where
  "projected_slice random_key l Pl =
     map (\<lambda>a. map (\<lambda>b. fl_sum (map (\<lambda>q. fl_mul (random_key ! q ! a) (Pl ! q ! b))
                                  [0..<nrows random_key]))
                  [0..<ncols Pl])
       [0..<min (2 * l + 1) (ncols random_key)]"

section \<open>Exact linear algebra for the round trip\<close>




section \<open>Inputs of the examples\<close>

text \<open>The parameters \<open>N = 1\<close>, \<open>L = 0\<close>, \<open>S = 1\<close>.\<close>

definition example_params :: params where
  "example_params = [''n_max'' \<mapsto> 1, ''l_max'' \<mapsto> 0, ''n_Z'' \<mapsto> 1]"

text \<open>
  The examples run \<^verbatim>\<open>uncompress_slice\<close> at \<open>l = 0\<close>, where \<^verbatim>\<open>WtP\<close> has one row and
  the reduced Gram matrix is \<open>1 \<times> 1\<close>. On such arguments the two LAPACK routines are
  known exactly: a matrix of one finite row has rank 0 when the row is zero and rank 1
  otherwise, and the eigendecomposition of the matrix \<open>[[c]]\<close> is the eigenvalue \<open>c\<close>
  with the eigenvector \<open>[1]\<close>. The two functions below are meant for these
  arguments only.
\<close>

definition example_matrix_rank :: rank_fun where
  "example_matrix_rank M = Inr (if is_zero_mat M then 0 else 1)"

definition example_eigh :: eigh_fun where
  "example_eigh C = Inr ([C ! 0 ! 0], [[Fin 1]])"

text \<open>Parameters with \<open>N S < 2 L + 1\<close> and with \<open>N S > 2 L + 1\<close>.\<close>

definition narrow_params :: params where
  "narrow_params = [''n_max'' \<mapsto> 1, ''l_max'' \<mapsto> 1, ''n_Z'' \<mapsto> 1]"

definition wide_params :: params where
  "wide_params = [''n_max'' \<mapsto> 2, ''l_max'' \<mapsto> 0, ''n_Z'' \<mapsto> 1]"

text \<open>The parameters \<open>N = 2\<close>, \<open>L = 1\<close>, \<open>S = 1\<close>.\<close>

definition square_params :: params where
  "square_params = [''n_max'' \<mapsto> 2, ''l_max'' \<mapsto> 1, ''n_Z'' \<mapsto> 1]"

text \<open>
  The parameters that \<^verbatim>\<open>dataset_to_params\<close> makes for a dataset with one chemical
  species: the function sets \<^verbatim>\<open>params["n_max"] = 6\<close> and \<^verbatim>\<open>params["l_max"] = 3\<close> for every
  dataset, and \<^verbatim>\<open>params["n_Z"] = len(species)\<close>.
\<close>

definition one_species_params :: params where
  "one_species_params = [''n_max'' \<mapsto> 6, ''l_max'' \<mapsto> 3, ''n_Z'' \<mapsto> 1]"



section \<open>Auxiliary notions for the proofs\<close>

text \<open>The number of index pairs \<open>(n1, n2)\<close> with \<open>n2 \<le> n1 < n\<close>.\<close>

definition tri :: "nat \<Rightarrow> nat" where "tri n = n * (n + 1) div 2"

text \<open>The invariant of the loops of \<^verbatim>\<open>ps2slices\<close>: \<open>K\<close> square matrices of
  size \<open>NS\<close>, each equal to its mirror image.\<close>

definition slices_inv :: "nat \<Rightarrow> nat \<Rightarrow> mat list \<Rightarrow> bool" where
  "slices_inv K NS s =
     (length s = K \<and>
      (\<forall>l<K. length (s ! l) = NS \<and>
         (\<forall>a<NS. length (s ! l ! a) = NS \<and> (\<forall>b<NS. s ! l ! a ! b = s ! l ! b ! a))))"

text \<open>The only exception of \<^verbatim>\<open>ps2slices\<close>, and when it is raised.\<close>

definition err_short :: "vec \<Rightarrow> nat \<Rightarrow> nat \<Rightarrow> error \<Rightarrow> bool" where
  "err_short ps NS L e = (e = IndexError \<and> length ps < (L + 1) * tri NS)"

text \<open>
  Matrices with finite entries as functions of the two indices: \<open>fmk m n f\<close> is the
  \<open>m \<times> n\<close> matrix with the entries \<open>f i j\<close>.
\<close>

definition fmk :: "nat \<Rightarrow> nat \<Rightarrow> (nat \<Rightarrow> nat \<Rightarrow> real) \<Rightarrow> mat" where
  "fmk m n f = map (\<lambda>i. map (\<lambda>j. Fin (f i j)) [0..<n]) [0..<m]"


definition tr :: "(nat \<Rightarrow> nat \<Rightarrow> real) \<Rightarrow> nat \<Rightarrow> nat \<Rightarrow> real" where
  "tr f = (\<lambda>i j. f j i)"


definition dgf :: "(nat \<Rightarrow> real) \<Rightarrow> nat \<Rightarrow> nat \<Rightarrow> real" where
  "dgf d = (\<lambda>i j. if i = j then d i else 0)"

text \<open>Equality of the entries with indices below \<open>m\<close> and \<open>n\<close>.\<close>

definition eqr :: "nat \<Rightarrow> nat \<Rightarrow> (nat \<Rightarrow> nat \<Rightarrow> real) \<Rightarrow> (nat \<Rightarrow> nat \<Rightarrow> real) \<Rightarrow> bool" where
  "eqr m n f g = (\<forall>i<m. \<forall>j<n. f i j = g i j)"

text \<open>The real value of a finite entry, and the entries of a matrix as a function.\<close>

fun rv :: "npfloat \<Rightarrow> real" where
  "rv (Fin a) = a"
| "rv x = 0"

definition ent :: "mat \<Rightarrow> nat \<Rightarrow> nat \<Rightarrow> real" where
  "ent A = (\<lambda>i j. rv (A ! i ! j))"

section \<open>Facts about the loops\<close>

lemma foldM_append:
  "foldM f (xs @ ys) s = (case foldM f xs s of Inl e \<Rightarrow> Inl e | Inr s' \<Rightarrow> foldM f ys s')"
  by (induction xs arbitrary: s) (auto split: sum.splits)

lemma ncols_shape: "has_shape m n A \<Longrightarrow> 0 < m \<Longrightarrow> ncols A = n"
  by (cases A) (simp_all add: has_shape_def ncols_def)

lemma tri_Suc: "tri (Suc n) = tri n + n + 1"
  by (simp add: tri_def)

lemma tri_mono: "m \<le> n \<Longrightarrow> tri m \<le> tri n"
  unfolding tri_def by (intro div_le_mono mult_le_mono) auto

lemma foldM_upt_rule:
  assumes "a \<le> b" and "I a s"
    and step: "\<And>k s. a \<le> k \<Longrightarrow> k < b \<Longrightarrow> I k s \<Longrightarrow>
                 (case f k s of Inl e \<Rightarrow> E e | Inr s' \<Rightarrow> I (Suc k) s')"
  shows "case foldM f [a..<b] s of Inl e \<Rightarrow> E e | Inr s' \<Rightarrow> I b s'"
  using assms
proof (induction b)
  case 0
  then show ?case by simp
next
  case (Suc b)
  show ?case
  proof (cases "a \<le> b")
    case True
    have ih: "case foldM f [a..<b] s of Inl e \<Rightarrow> E e | Inr s' \<Rightarrow> I b s'"
      using Suc.IH [OF True Suc.prems(2)] Suc.prems(3) by simp
    show ?thesis
    proof (cases "foldM f [a..<b] s")
      case (Inl e)
      with ih True show ?thesis by (simp add: foldM_append)
    next
      case (Inr s1)
      with ih have "I b s1" by simp
      from Suc.prems(3) [OF True _ this]
      have "case f b s1 of Inl e \<Rightarrow> E e | Inr s' \<Rightarrow> I (Suc b) s'" by simp
      with Inr True show ?thesis by (simp add: foldM_append split: sum.splits)
    qed
  next
    case False
    with Suc.prems(1) have "a = Suc b" by simp
    with Suc.prems(2) show ?thesis by simp
  qed
qed

lemma slices_inv_zeros3: "slices_inv K NS (zeros3 K NS NS)"
  by (simp add: slices_inv_def zeros3_def zeros_def)

lemma set_entry_diag:
  assumes "slices_inv K NS s" "l < K" "a < NS"
  shows "slices_inv K NS (set_entry s l a a v)"
  using assms unfolding slices_inv_def set_entry_def
  by (auto simp: nth_list_update)

lemma set_entry_pair:
  assumes "slices_inv K NS s" "l < K" "a < NS" "b < NS"
  shows "slices_inv K NS (set_entry (set_entry s l a b v) l b a v)"
  using assms unfolding slices_inv_def set_entry_def
  by (auto simp: nth_list_update)

lemma ps2slices_l_step:
  assumes inv: "slices_inv (L + 1) NS s"
    and n: "n1 < NS" "n2 \<le> n1" and l: "l < L + 1" and i: "i < tri NS"
  shows "case ps2slices_l ps L n1 n2 i l s of
           Inl e \<Rightarrow> err_short ps NS L e
         | Inr s' \<Rightarrow> slices_inv (L + 1) NS s' \<and> (L + 1) * i + Suc l \<le> length ps"
proof (cases "(L + 1) * i + l < length ps")
  case True
  have n2: "n2 < NS" using n by simp
  show ?thesis
  proof (cases "n1 = n2")
    case True
    with \<open>(L + 1) * i + l < length ps\<close> set_entry_diag [OF inv l n(1)]
    show ?thesis by (simp add: ps2slices_l_def)
  next
    case False
    with \<open>(L + 1) * i + l < length ps\<close> set_entry_pair [OF inv l n(1) n2]
    show ?thesis by (simp add: ps2slices_l_def Let_def)
  qed
next
  case False
  have "(L + 1) * i + l < (L + 1) * (i + 1)" using l by simp
  also have "\<dots> \<le> (L + 1) * tri NS" using i by (intro mult_le_mono2) simp
  finally have "length ps < (L + 1) * tri NS" using False by simp
  with False show ?thesis by (simp add: ps2slices_l_def err_short_def)
qed

lemma ps2slices_n2_step:
  assumes inv: "slices_inv (L + 1) NS (fst st)"
    and n: "n1 < NS" "n2 \<le> n1" and i: "snd st = tri n1 + n2"
  shows "case ps2slices_n2 ps L n1 n2 st of
           Inl e \<Rightarrow> err_short ps NS L e
         | Inr st' \<Rightarrow> slices_inv (L + 1) NS (fst st') \<and> snd st' = tri n1 + Suc n2
                       \<and> (L + 1) * snd st' \<le> length ps"
proof -
  have "tri n1 + n2 < tri (Suc n1)" using n by (simp add: tri_Suc)
  also have "\<dots> \<le> tri NS" using n by (intro tri_mono) simp
  finally have ilt: "snd st < tri NS" using i by simp
  let ?I = "\<lambda>l s. slices_inv (L + 1) NS s \<and> (0 < l \<longrightarrow> (L + 1) * snd st + l \<le> length ps)"
  have "case foldM (ps2slices_l ps L n1 n2 (snd st)) [0..<L + 1] (fst st) of
          Inl e \<Rightarrow> err_short ps NS L e | Inr s' \<Rightarrow> ?I (L + 1) s'"
  proof (rule foldM_upt_rule [where I = ?I])
    show "0 \<le> L + 1" by simp
    show "?I 0 (fst st)" using inv by simp
  next
    fix k s assume "k < L + 1" and "?I k s"
    then show "case ps2slices_l ps L n1 n2 (snd st) k s of
                 Inl e \<Rightarrow> err_short ps NS L e | Inr s' \<Rightarrow> ?I (Suc k) s'"
      using ps2slices_l_step [of L NS s n1 n2 k "snd st" ps] n ilt
      by (auto split: sum.splits)
  qed
  then show ?thesis
    using i by (auto simp: ps2slices_n2_def split: sum.splits)
qed

lemma ps2slices_n1_step:
  assumes inv: "slices_inv (L + 1) NS (fst st)"
    and n: "n1 < NS" and i: "snd st = tri n1" and len: "(L + 1) * snd st \<le> length ps"
  shows "case ps2slices_n1 ps L n1 st of
           Inl e \<Rightarrow> err_short ps NS L e
         | Inr st' \<Rightarrow> slices_inv (L + 1) NS (fst st') \<and> snd st' = tri (Suc n1)
                       \<and> (L + 1) * snd st' \<le> length ps"
proof -
  let ?I = "\<lambda>n2 st'. slices_inv (L + 1) NS (fst st') \<and> snd st' = tri n1 + n2
                       \<and> (L + 1) * snd st' \<le> length ps"
  have "case foldM (ps2slices_n2 ps L n1) [0..<n1 + 1] st of
          Inl e \<Rightarrow> err_short ps NS L e | Inr st' \<Rightarrow> ?I (n1 + 1) st'"
  proof (rule foldM_upt_rule [where I = ?I])
    show "0 \<le> n1 + 1" by simp
    show "?I 0 st" using inv i len by simp
  next
    fix k st' assume "k < n1 + 1" and "?I k st'"
    then show "case ps2slices_n2 ps L n1 k st' of
                 Inl e \<Rightarrow> err_short ps NS L e | Inr st'' \<Rightarrow> ?I (Suc k) st''"
      using ps2slices_n2_step [of L NS st' n1 k ps] n
      by (auto split: sum.splits)
  qed
  then show ?thesis
    by (auto simp: ps2slices_n1_def tri_Suc split: sum.splits)
qed

lemma ps2slices_cases:
  "case ps2slices ps NS L of
     Inl e \<Rightarrow> err_short ps NS L e
   | Inr S \<Rightarrow> slices_inv (L + 1) NS S \<and> (L + 1) * tri NS \<le> length ps"
proof -
  let ?I = "\<lambda>n1 st. slices_inv (L + 1) NS (fst st) \<and> snd st = tri n1
                      \<and> (L + 1) * snd st \<le> length ps"
  have "case foldM (ps2slices_n1 ps L) [0..<NS] (zeros3 (L + 1) NS NS, 0) of
          Inl e \<Rightarrow> err_short ps NS L e | Inr st \<Rightarrow> ?I NS st"
  proof (rule foldM_upt_rule [where I = ?I])
    show "0 \<le> NS" by simp
    show "?I 0 (zeros3 (L + 1) NS NS, 0)" by (simp add: slices_inv_zeros3 tri_def)
  next
    fix k st assume "k < NS" and "?I k st"
    then show "case ps2slices_n1 ps L k st of
                 Inl e \<Rightarrow> err_short ps NS L e | Inr st' \<Rightarrow> ?I (Suc k) st'"
      using ps2slices_n1_step [of L NS st k ps]
      by (auto split: sum.splits)
  qed
  then show ?thesis
    by (auto simp: ps2slices_def split: sum.splits)
qed

lemma ps_len_tri: "ps_len NS L = (L + 1) * tri NS"
proof -
  have "even (NS * (NS + 1))" by simp
  then obtain k where k: "NS * (NS + 1) = 2 * k" by (elim evenE)
  then show ?thesis by (simp add: ps_len_def tri_def)
qed

lemma foldM_upt_cong:
  assumes "a \<le> b" and "I a s"
    and step: "\<And>k s. a \<le> k \<Longrightarrow> k < b \<Longrightarrow> I k s \<Longrightarrow>
                 g k s = f k s \<and> (case f k s of Inl e \<Rightarrow> True | Inr s' \<Rightarrow> I (Suc k) s')"
  shows "foldM g [a..<b] s = foldM f [a..<b] s"
  using assms
proof (induction b)
  case 0
  then show ?case by simp
next
  case (Suc b)
  show ?case
  proof (cases "a \<le> b")
    case True
    have eq: "foldM g [a..<b] s = foldM f [a..<b] s"
      using Suc.IH [OF True Suc.prems(2)] Suc.prems(3) by simp
    have inv: "case foldM f [a..<b] s of Inl e \<Rightarrow> True | Inr s' \<Rightarrow> I b s'"
      using Suc.prems(3)
      by (intro foldM_upt_rule [where I = I and E = "\<lambda>_. True", OF True Suc.prems(2)]) simp
    show ?thesis
    proof (cases "foldM f [a..<b] s")
      case (Inl e)
      with eq True show ?thesis by (simp add: foldM_append)
    next
      case (Inr s1)
      with inv have "I b s1" by simp
      from Suc.prems(3) [OF True _ this] have "g b s1 = f b s1" by simp
      with Inr eq True show ?thesis by (simp add: foldM_append split: sum.splits)
    qed
  next
    case False
    with Suc.prems(1) have "a = Suc b" by simp
    then show ?thesis by simp
  qed
qed

lemma ps2slices_l_take:
  assumes "(L + 1) * i + l < n" "n \<le> length ps"
  shows "ps2slices_l (take n ps) L n1 n2 i l s = ps2slices_l ps L n1 n2 i l s"
  using assms by (simp add: ps2slices_l_def)

lemma ps2slices_n2_take:
  assumes i: "snd st < tri NS" and len: "(L + 1) * tri NS \<le> length ps"
  shows "ps2slices_n2 (take ((L + 1) * tri NS) ps) L n1 n2 st = ps2slices_n2 ps L n1 n2 st"
proof -
  have bound: "(L + 1) * snd st + l < (L + 1) * tri NS" if "l < L + 1" for l
  proof -
    have "(L + 1) * snd st + l < (L + 1) * (snd st + 1)" using that by simp
    also have "\<dots> \<le> (L + 1) * tri NS" using i by (intro mult_le_mono2) simp
    finally show ?thesis .
  qed
  have "foldM (ps2slices_l (take ((L + 1) * tri NS) ps) L n1 n2 (snd st)) [0..<L + 1] (fst st)
        = foldM (ps2slices_l ps L n1 n2 (snd st)) [0..<L + 1] (fst st)"
  proof (rule foldM_upt_cong [where I = "\<lambda>_ _. True"])
    fix k s assume "k < L + 1"
    from ps2slices_l_take [OF bound [OF this] len]
    show "ps2slices_l (take ((L + 1) * tri NS) ps) L n1 n2 (snd st) k s
            = ps2slices_l ps L n1 n2 (snd st) k s
          \<and> (case ps2slices_l ps L n1 n2 (snd st) k s of Inl e \<Rightarrow> True | Inr s' \<Rightarrow> True)"
      by (simp split: sum.splits)
  qed simp_all
  then show ?thesis by (simp add: ps2slices_n2_def)
qed

lemma ps2slices_n1_take:
  assumes n: "n1 < NS" and i: "snd st = tri n1" and len: "(L + 1) * tri NS \<le> length ps"
  shows "ps2slices_n1 (take ((L + 1) * tri NS) ps) L n1 st = ps2slices_n1 ps L n1 st"
  unfolding ps2slices_n1_def
proof (rule foldM_upt_cong [where I = "\<lambda>n2 (st' :: mat list \<times> nat). snd st' = tri n1 + n2"])
  show "0 \<le> n1 + 1" by simp
  show "snd st = tri n1 + 0" using i by simp
next
  fix k and st' :: "mat list \<times> nat"
  assume k: "k < n1 + 1" and s: "snd st' = tri n1 + k"
  have "tri n1 + k < tri (Suc n1)" using k by (simp add: tri_Suc)
  also have "\<dots> \<le> tri NS" using n by (intro tri_mono) simp
  finally have "snd st' < tri NS" using s by simp
  then have "ps2slices_n2 (take ((L + 1) * tri NS) ps) L n1 k st' = ps2slices_n2 ps L n1 k st'"
    using len by (rule ps2slices_n2_take)
  moreover have "case ps2slices_n2 ps L n1 k st' of Inl e \<Rightarrow> True
                 | Inr st'' \<Rightarrow> snd st'' = tri n1 + Suc k"
    using s by (auto simp: ps2slices_n2_def split: sum.splits)
  ultimately show "ps2slices_n2 (take ((L + 1) * tri NS) ps) L n1 k st' = ps2slices_n2 ps L n1 k st'
      \<and> (case ps2slices_n2 ps L n1 k st' of Inl e \<Rightarrow> True
          | Inr st'' \<Rightarrow> snd st'' = tri n1 + Suc k)"
    by simp
qed

lemma ps2slices_take:
  assumes len: "(L + 1) * tri NS \<le> length ps"
  shows "ps2slices (take ((L + 1) * tri NS) ps) NS L = ps2slices ps NS L"
proof -
  let ?I = "\<lambda>n1 st. slices_inv (L + 1) NS (fst st) \<and> snd st = tri n1
                      \<and> (L + 1) * snd st \<le> length ps"
  have "foldM (ps2slices_n1 (take ((L + 1) * tri NS) ps) L) [0..<NS] (zeros3 (L + 1) NS NS, 0)
        = foldM (ps2slices_n1 ps L) [0..<NS] (zeros3 (L + 1) NS NS, 0)"
  proof (rule foldM_upt_cong [where I = ?I])
    show "0 \<le> NS" by simp
    show "?I 0 (zeros3 (L + 1) NS NS, 0)" by (simp add: slices_inv_zeros3 tri_def)
  next
    fix k st assume k: "k < NS" and inv: "?I k st"
    have "ps2slices_n1 (take ((L + 1) * tri NS) ps) L k st = ps2slices_n1 ps L k st"
      using k inv len by (intro ps2slices_n1_take) simp_all
    moreover have "case ps2slices_n1 ps L k st of Inl e \<Rightarrow> True | Inr st' \<Rightarrow> ?I (Suc k) st'"
      using ps2slices_n1_step [of L NS st k ps] k inv by (auto split: sum.splits)
    ultimately show "ps2slices_n1 (take ((L + 1) * tri NS) ps) L k st = ps2slices_n1 ps L k st
        \<and> (case ps2slices_n1 ps L k st of Inl e \<Rightarrow> True | Inr st' \<Rightarrow> ?I (Suc k) st')"
      by simp
  qed
  then show ?thesis by (simp add: ps2slices_def)
qed

lemma slices_inv_shape_sym:
  assumes "slices_inv K NS S"
  shows "length S = K \<and> list_all (\<lambda>M. has_shape NS NS M \<and> symmetric_m M) S"
proof -
  have len: "length S = K" using assms by (simp add: slices_inv_def)
  have "has_shape NS NS (S ! l) \<and> symmetric_m (S ! l)" if l: "l < K" for l
  proof -
    let ?M = "S ! l"
    have lenM: "length ?M = NS" and rows: "\<And>a. a < NS \<Longrightarrow> length (?M ! a) = NS"
      and sym: "\<And>a b. a < NS \<Longrightarrow> b < NS \<Longrightarrow> ?M ! a ! b = ?M ! b ! a"
      using assms l by (auto simp: slices_inv_def)
    have shape: "has_shape NS NS ?M"
      using lenM rows by (simp add: has_shape_def list_all_length)
    have nc: "ncols ?M = NS"
    proof (cases ?M)
      case Nil
      with lenM show ?thesis by (simp add: ncols_def)
    next
      case (Cons r rs)
      then have "?M ! 0 = r" and "0 < NS" using lenM by auto
      with rows [of 0] have "length r = NS" by simp
      with Cons show ?thesis by (simp add: ncols_def)
    qed
    have "transpose_m ?M = ?M"
    proof (rule nth_equalityI)
      show "length (transpose_m ?M) = length ?M" by (simp add: transpose_m_def nc lenM)
    next
      fix a assume "a < length (transpose_m ?M)"
      then have a: "a < NS" by (simp add: transpose_m_def nc)
      have "col ?M a = ?M ! a"
        by (rule nth_equalityI) (use a lenM rows sym in \<open>auto simp: col_def\<close>)
      then show "transpose_m ?M ! a = ?M ! a" using a by (simp add: transpose_m_def nc)
    qed
    with shape show ?thesis by (simp add: symmetric_m_def)
  qed
  with len show ?thesis by (simp add: list_all_length)
qed

section \<open>Claims about the slice decomposer\<close>

text \<open>
  Claim C6 (shape validation), as the code has it. \<^verbatim>\<open>ps2slices\<close> never compares the
  length of \<^verbatim>\<open>ps\<close> with \<open>NS*(NS+1)*(L+1)/2\<close>. A vector shorter than that raises
  \<^verbatim>\<open>IndexError\<close> at the first read past its end. A vector of that length or longer
  yields the \<open>L+1\<close> symmetric \<open>NS \<times> NS\<close> matrices, and the entries after the first
  \<open>NS*(NS+1)*(L+1)/2\<close> are never read: the result is that of the truncated vector.
\<close>

theorem ps2slices_length_behaviour:
  "(length ps < ps_len NS L \<longrightarrow> ps2slices ps NS L = Inl IndexError) \<and>
   (ps_len NS L \<le> length ps \<longrightarrow>
      (\<exists>S. ps2slices ps NS L = Inr S \<and> length S = L + 1 \<and>
           list_all (\<lambda>M. has_shape NS NS M \<and> symmetric_m M) S \<and>
           ps2slices (take (ps_len NS L) ps) NS L = Inr S))"
proof (intro conjI impI)
  assume short: "length ps < ps_len NS L"
  show "ps2slices ps NS L = Inl IndexError"
  proof (cases "ps2slices ps NS L")
    case (Inl e)
    with ps2slices_cases [of ps NS L] show ?thesis by (simp add: err_short_def)
  next
    case (Inr S)
    with ps2slices_cases [of ps NS L] short show ?thesis by (simp add: ps_len_tri)
  qed
next
  assume long: "ps_len NS L \<le> length ps"
  show "\<exists>S. ps2slices ps NS L = Inr S \<and> length S = L + 1 \<and>
           list_all (\<lambda>M. has_shape NS NS M \<and> symmetric_m M) S \<and>
           ps2slices (take (ps_len NS L) ps) NS L = Inr S"
  proof (cases "ps2slices ps NS L")
    case (Inl e)
    with ps2slices_cases [of ps NS L] long show ?thesis
      by (simp add: err_short_def ps_len_tri)
  next
    case (Inr S)
    with ps2slices_cases [of ps NS L] have "slices_inv (L + 1) NS S" by simp
    from slices_inv_shape_sym [OF this] Inr ps2slices_take [of L NS ps] long
    show ?thesis by (simp add: ps_len_tri)
  qed
qed

theorem ps2slices_length_behaviour_witness:
  "length [Fin 1] < ps_len 2 0 \<and> ps2slices [Fin 1] 2 0 = Inl IndexError \<and>
   ps_len 1 0 \<le> length [Fin 1, Fin 2] \<and>
   (\<exists>S. ps2slices [Fin 1, Fin 2] 1 0 = Inr S \<and> length S = 0 + 1 \<and>
        list_all (\<lambda>M. has_shape 1 1 M \<and> symmetric_m M) S \<and>
        ps2slices (take (ps_len 1 0) [Fin 1, Fin 2]) 1 0 = Inr S)"
  using ps2slices_length_behaviour [of "[Fin 1]" 2 0]
    ps2slices_length_behaviour [of "[Fin 1, Fin 2]" 1 0]
  by (simp add: ps_len_def)

text \<open>
  Counterexample to C6 as stated: a vector one entry too long is accepted and its last
  entry dropped without any error, and a vector too short fails with the out-of-range
  read, not with a check of the shape.
\<close>

theorem ps2slices_no_shape_check:
  "length [Fin 1, Fin 2] \<noteq> ps_len 1 0 \<and> ps2slices [Fin 1, Fin 2] 1 0 = Inr [[[Fin 1]]] \<and>
   length [Fin 1] \<noteq> ps_len 2 0 \<and> ps2slices [Fin 1] 2 0 = Inl IndexError"
  by (simp add: ps_len_def ps2slices_def ps2slices_n1_def ps2slices_n2_def ps2slices_l_def
      zeros3_def zeros_def set_entry_def Let_def upt_rec)

section \<open>Claims about the compressor\<close>

text \<open>
  Claim C9 (the unbound name), as amended. In the notebook's namespace \<^verbatim>\<open>split_ps2\<close> is
  unbound, so \<^verbatim>\<open>compress_ps\<close> never returns: it raises \<^verbatim>\<open>NameError\<close> for every
  input whose \<^verbatim>\<open>params\<close> holds the three keys it reads first, and \<^verbatim>\<open>KeyError\<close> for
  the first of these keys that is missing, before the name is looked up.
\<close>

theorem compress_ps_unbound_name:
  "compress_ps linalg_norm notebook_split_ps2 ps params random_key norm_arg =
     (if params ''n_max'' = None then Inl (KeyError ''n_max'')
      else if params ''l_max'' = None then Inl (KeyError ''l_max'')
      else if params ''n_Z'' = None then Inl (KeyError ''n_Z'')
      else Inl (NameError ''split_ps2''))"
  by (auto simp: compress_ps_def notebook_split_ps2_def lookup_def ebind_def)

theorem compress_ps_unbound_name_witness:
  "compress_ps norm2 notebook_split_ps2 [Fin 2] example_params [[Fin 1]] True
     = Inl (NameError ''split_ps2'')"
  using compress_ps_unbound_name [of norm2 "[Fin 2]" example_params "[[Fin 1]]" True]
  by (simp add: example_params_def)

text \<open>
  Counterexample to C9 as stated ("for every input ... raises a NameError"): with an
  empty \<^verbatim>\<open>params\<close> the first statement of the function raises \<^verbatim>\<open>KeyError\<close>, and the
  call of \<^verbatim>\<open>split_ps2\<close> is never reached.
\<close>

theorem compress_ps_missing_key:
  "compress_ps norm2 notebook_split_ps2 [Fin 2] Map.empty [[Fin 1]] True
     = Inl (KeyError ''n_max'')"
  by (simp add: compress_ps_def lookup_def ebind_def)

lemma compress_ps_loop:
  "l_slices = pre @ suf \<Longrightarrow>
   foldM (compress_ps_l random_key l_slices) [length pre..<length l_slices] acc =
     ebind (mapM (\<lambda>(l, Pl). compress_slice random_key l Pl) (enumerate (length pre) suf))
       (\<lambda>cs. Inr (acc @ concat (map concat cs)))"
proof (induction suf arbitrary: pre acc)
  case Nil
  then show ?case by (simp add: ebind_def)
next
  case (Cons P suf)
  have nth: "l_slices ! length pre = P" and lt: "length pre < length l_slices"
    using Cons.prems by simp_all
  have range: "[length pre..<length l_slices] = length pre # [length (pre @ [P])..<length l_slices]"
    using upt_conv_Cons [OF lt] by simp
  have split: "l_slices = (pre @ [P]) @ suf" using Cons.prems by simp
  show ?case
  proof (cases "compress_slice random_key (length pre) P")
    case (Inl e)
    then show ?thesis by (simp add: range compress_ps_l_def nth lt ebind_def)
  next
    case (Inr M)
    have "foldM (compress_ps_l random_key l_slices) [length pre..<length l_slices] acc
          = foldM (compress_ps_l random_key l_slices) [length (pre @ [P])..<length l_slices]
              (acc @ concat M)"
      using Inr by (simp add: range compress_ps_l_def nth lt ebind_def)
    also have "\<dots> = ebind (mapM (\<lambda>(l, Pl). compress_slice random_key l Pl)
                           (enumerate (length (pre @ [P])) suf))
                       (\<lambda>cs. Inr ((acc @ concat M) @ concat (map concat cs)))"
      by (rule Cons.IH [OF split])
    finally show ?thesis using Inr by (simp add: ebind_def split: sum.splits)
  qed
qed

lemma compress_ps_fold:
  assumes "length l_slices = L + 1"
  shows "foldM (compress_ps_l random_key l_slices) [0..<Suc L] []
           = ebind (comp_slices random_key l_slices) (\<lambda>cs. Inr (concat (map concat cs)))"
proof -
  have "foldM (compress_ps_l random_key l_slices) [length ([] :: mat list)..<length l_slices] []
        = ebind (mapM (\<lambda>(l, Pl). compress_slice random_key l Pl)
                   (enumerate (length ([] :: mat list)) l_slices))
            (\<lambda>cs. Inr ([] @ concat (map concat cs)))"
    by (rule compress_ps_loop) simp
  then show ?thesis
    using assms by (simp add: comp_slices_def del: upt_Suc)
qed

lemma map_nth_upt: "map f xs = map (\<lambda>q. f (xs ! q)) [0..<length xs]"
  by (rule nth_equalityI) simp_all

lemma compress_slice_projected:
  assumes key: "has_shape NS k random_key" and Pl: "has_shape NS n Pl"
    and pos: "0 < NS" "0 < k"
  shows "compress_slice random_key l Pl = Inr (projected_slice random_key l Pl)"
proof -
  define W where "W = first_cols (2 * l + 1) random_key"
  define k' where "k' = min (2 * l + 1) k"
  have W: "has_shape NS k' W"
    using key by (auto simp: has_shape_def first_cols_def list_all_iff W_def k'_def)
  have lenW: "length W = NS" using W by (simp add: has_shape_def)
  have lenK: "length random_key = NS" using key by (simp add: has_shape_def)
  have lenP: "length Pl = NS" using Pl by (simp add: has_shape_def)
  have ncW: "ncols W = k'" by (rule ncols_shape [OF W pos(1)])
  have ncK: "ncols random_key = k" by (rule ncols_shape [OF key pos(1)])
  have kpos: "0 < k'" using pos by (simp add: k'_def)
  have colW: "col W a = map (\<lambda>q. random_key ! q ! a) [0..<NS]" if a: "a < k'" for a
  proof -
    have "col W a = map (\<lambda>q. W ! q ! a) [0..<NS]"
      unfolding col_def using map_nth_upt [of "\<lambda>r. r ! a" W] by (simp add: lenW)
    also have "\<dots> = map (\<lambda>q. random_key ! q ! a) [0..<NS]"
      using a by (intro map_cong) (simp_all add: W_def first_cols_def lenK k'_def)
    finally show ?thesis .
  qed
  have colP: "col Pl b = map (\<lambda>q. Pl ! q ! b) [0..<NS]" for b
    unfolding col_def using map_nth_upt [of "\<lambda>r. r ! b" Pl] by (simp add: lenP)
  have Wt: "transpose_m W = map (\<lambda>a. map (\<lambda>q. random_key ! q ! a) [0..<NS]) [0..<k']"
    unfolding transpose_m_def ncW by (intro map_cong) (simp_all add: colW)
  have ncT: "ncols (transpose_m W) = NS"
    using kpos unfolding Wt by (simp add: ncols_def upt_conv_Cons)
  have entry: "vdot (map (\<lambda>q. random_key ! q ! a) [0..<NS]) (col Pl b)
               = fl_sum (map (\<lambda>q. fl_mul (random_key ! q ! a) (Pl ! q ! b)) [0..<NS])" for a b
  proof -
    have "map2 fl_mul (map (\<lambda>q. random_key ! q ! a) [0..<NS]) (map (\<lambda>q. Pl ! q ! b) [0..<NS])
          = map (\<lambda>q. fl_mul (random_key ! q ! a) (Pl ! q ! b)) [0..<NS]"
      by (rule nth_equalityI) simp_all
    then show ?thesis by (simp add: vdot_def colP)
  qed
  have "dot (transpose_m W) Pl = Inr (projected_slice random_key l Pl)"
    unfolding dot_def ncT projected_slice_def
    by (simp add: nrows_def lenP lenK ncK Wt entry k'_def)
  then show ?thesis by (simp add: compress_slice_def W_def)
qed

lemma mapM_enumerate_eq:
  "(\<forall>i<length xs. f (a + i, xs ! i) = Inr (g (a + i))) \<Longrightarrow>
   mapM f (enumerate a xs) = Inr (map g [a..<a + length xs])"
proof (induction xs arbitrary: a)
  case Nil
  then show ?case by simp
next
  case (Cons x xs)
  from Cons.prems [rule_format, of 0] have x: "f (a, x) = Inr (g a)" by simp
  have "\<forall>i<length xs. f (Suc a + i, xs ! i) = Inr (g (Suc a + i))"
    using Cons.prems by (metis add_Suc add_Suc_right length_Cons not_less_eq nth_Cons_Suc)
  from Cons.IH [OF this] have xs: "mapM f (enumerate (Suc a) xs) = Inr (map g [Suc a..<Suc a + length xs])" .
  have "a < a + length (x # xs)" by simp
  from upt_conv_Cons [OF this]
  have "[a..<a + length (x # xs)] = a # [Suc a..<Suc a + length xs]" by simp
  with x xs show ?case by simp
qed

text \<open>
  Claim C3 (content of the compression step), as amended. In the notebook as it is
  the name \<^verbatim>\<open>split_ps2\<close> is unbound and every call raises (claim C9); the statement
  describes the function once the name is bound to the slice splitter \<^verbatim>\<open>ps2slices\<close>.
  For a key with \<open>N S\<close> rows and at least one column, \<^verbatim>\<open>compress_ps\<close> takes the packed
  vector, splits it, and returns the concatenation over \<open>l = 0..L\<close> of the flattened
  matrices \<open>W\<^sub>l\<^sup>T P\<^sub>l\<close> as the specification describes them (\<open>projected_slice\<close>: the sums
  of products over the rows of the key, for the first \<open>2l+1\<close> columns of the key),
  divided by \<^verbatim>\<open>np.linalg.norm\<close> of that vector when \<^verbatim>\<open>norm\<close> is true, which is the
  default, and unchanged when \<^verbatim>\<open>norm\<close> is false. When the splitter raises, so does
  \<^verbatim>\<open>compress_ps\<close>. The result is a function of the arguments alone.
\<close>

theorem compress_ps_content:
  assumes "params ''n_max'' = Some N" "params ''l_max'' = Some L" "params ''n_Z'' = Some S"
    and "has_shape (N * S) k random_key" "0 < N * S" "0 < k"
  shows "compress_ps linalg_norm (Some ps2slices) ps params random_key norm_arg =
     ebind (ps2slices ps (N * S) L) (\<lambda>l_slices.
       let short = concat (map (\<lambda>l. concat (projected_slice random_key l (l_slices ! l)))
                             [0..<L + 1])
       in if norm_arg then Inr (map (\<lambda>x. fl_div x (linalg_norm short)) short)
          else Inr short)"
proof (cases "ps2slices ps (N * S) L")
  case (Inl e)
  with assms show ?thesis by (simp add: compress_ps_def lookup_def ebind_def)
next
  case (Inr l_slices)
  with ps2slices_cases [of ps "N * S" L] have inv: "slices_inv (L + 1) (N * S) l_slices" by simp
  from slices_inv_shape_sym [OF this]
  have len: "length l_slices = L + 1"
    and shapes: "list_all (\<lambda>M. has_shape (N * S) (N * S) M \<and> symmetric_m M) l_slices"
    by simp_all
  have "\<forall>i<length l_slices. (\<lambda>(l, Pl). compress_slice random_key l Pl) (0 + i, l_slices ! i)
          = Inr (projected_slice random_key (0 + i) (l_slices ! (0 + i)))"
  proof (intro allI impI)
    fix i assume "i < length l_slices"
    with shapes have "has_shape (N * S) (N * S) (l_slices ! i)" by (simp add: list_all_length)
    from compress_slice_projected [OF assms(4) this assms(5,6), of i]
    show "(\<lambda>(l, Pl). compress_slice random_key l Pl) (0 + i, l_slices ! i)
            = Inr (projected_slice random_key (0 + i) (l_slices ! (0 + i)))"
      by simp
  qed
  from mapM_enumerate_eq [where g = "\<lambda>l. projected_slice random_key l (l_slices ! l)"
      and a = 0 and xs = l_slices and f = "\<lambda>(l, Pl). compress_slice random_key l Pl", OF this]
  have cs: "comp_slices random_key l_slices
              = Inr (map (\<lambda>l. projected_slice random_key l (l_slices ! l)) [0..<Suc L])"
    using len by (simp add: comp_slices_def del: upt_Suc)
  have loop: "foldM (compress_ps_l random_key l_slices) [0..<Suc L] []
        = Inr (concat (map (\<lambda>l. concat (projected_slice random_key l (l_slices ! l))) [0..<Suc L]))"
    unfolding compress_ps_fold [OF len] cs by (simp add: ebind_def comp_def del: upt_Suc)
  show ?thesis
    using assms(1-3) Inr loop
    by (simp add: compress_ps_def lookup_def ebind_def Let_def del: upt_Suc)
qed

lemmas compress_eval = ps2slices_def ps2slices_n1_def ps2slices_n2_def ps2slices_l_def
  zeros3_def zeros_def set_entry_def c_half_def projected_slice_def ncols_def nrows_def
  fl_sum_def ebind_def Let_def upt_rec numeral_2_eq_2

text \<open>
  The statement at \<open>N = 2\<close>, \<open>L = 1\<close>, \<open>S = 1\<close> with the key \<open>[[1, 2], [3, 4]]\<close> and the
  slices \<open>diag(1, 3)\<close> and \<open>diag(2, 4)\<close>: the slice \<open>l = 0\<close> is multiplied by the first
  column of the key only, the slice \<open>l = 1\<close> by the whole transposed key, and the norm
  of the result is the square root of 502.
\<close>

theorem compress_ps_content_witness:
  "compress_ps norm2 (Some ps2slices) [Fin 1, Fin 2, Fin 0, Fin 0, Fin 3, Fin 4] square_params
       [[Fin 1, Fin 2], [Fin 3, Fin 4]] False
     = Inr [Fin 1, Fin 9, Fin 2, Fin 12, Fin 4, Fin 16] \<and>
   compress_ps norm2 (Some ps2slices) [Fin 1, Fin 2, Fin 0, Fin 0, Fin 3, Fin 4] square_params
       [[Fin 1, Fin 2], [Fin 3, Fin 4]] True
     = Inr (map (\<lambda>x. fl_div x (Fin (sqrt 502))) [Fin 1, Fin 9, Fin 2, Fin 12, Fin 4, Fin 16])"
proof -
  have p: "square_params ''n_max'' = Some 2" "square_params ''l_max'' = Some 1"
    "square_params ''n_Z'' = Some 1"
    by (simp_all add: square_params_def)
  have k: "has_shape (2 * 1) 2 [[Fin 1, Fin 2], [Fin 3, Fin 4]]" "0 < (2::nat) * 1" "0 < (2::nat)"
    by (simp_all add: has_shape_def)
  have s: "ps2slices [Fin 1, Fin 2, Fin 0, Fin 0, Fin 3, Fin 4] (2 * 1) 1
             = Inr [[[Fin 1, Fin 0], [Fin 0, Fin 3]], [[Fin 2, Fin 0], [Fin 0, Fin 4]]]"
    by (simp add: compress_eval)
  have n: "norm2 [Fin 1, Fin 9, Fin 2, Fin 12, Fin 4, Fin 16] = Fin (sqrt 502)"
    by (simp add: norm2_def fl_sum_def)
  from compress_ps_content [OF p k, of norm2 "[Fin 1, Fin 2, Fin 0, Fin 0, Fin 3, Fin 4]" False]
    compress_ps_content [OF p k, of norm2 "[Fin 1, Fin 2, Fin 0, Fin 0, Fin 3, Fin 4]" True]
  show ?thesis
    unfolding s by (simp add: n projected_slice_def ncols_def nrows_def fl_sum_def ebind_def Let_def upt_rec)
qed

text \<open>
  Counterexample to C3 as stated ("computes exactly \<open>W\<^sub>l\<^sup>T P\<^sub>l\<close>", "no normalization is
  applied inside this step"): for the vector \<open>[2, 0, 0]\<close>, \<open>N S = 2\<close>, \<open>L = 0\<close> and the key
  \<open>[[1], [1]]\<close>, the product \<open>W\<^sub>0\<^sup>T P\<^sub>0\<close> is \<open>[[2, 0]]\<close>. The call as the notebook has it
  (default \<^verbatim>\<open>norm=True\<close>) raises \<^verbatim>\<open>NameError\<close>; with \<^verbatim>\<open>split_ps2\<close> bound to \<^verbatim>\<open>ps2slices\<close>
  it returns \<open>[1, 0]\<close>, the product divided by its norm.
\<close>

theorem compress_ps_normalises:
  "compress_ps norm2 notebook_split_ps2 [Fin 2, Fin 0, Fin 0] wide_params [[Fin 1], [Fin 1]] True
     = Inl (NameError ''split_ps2'') \<and>
   ps2slices [Fin 2, Fin 0, Fin 0] 2 0 = Inr [[[Fin 2, Fin 0], [Fin 0, Fin 0]]] \<and>
   projected_slice [[Fin 1], [Fin 1]] 0 [[Fin 2, Fin 0], [Fin 0, Fin 0]] = [[Fin 2, Fin 0]] \<and>
   compress_ps norm2 (Some ps2slices) [Fin 2, Fin 0, Fin 0] wide_params [[Fin 1], [Fin 1]] True
     = Inr [Fin 1, Fin 0]"
  by (simp add: compress_eval wide_params_def compress_ps_def lookup_def notebook_split_ps2_def
      compress_ps_l_def compress_slice_def dot_def transpose_m_def first_cols_def col_def
      vdot_def norm2_def)

section \<open>Claims about the decompressor\<close>

lemma get_IR_loop_zero:
  assumes rank0: "\<forall>M. is_zero_mat M \<longrightarrow> matrix_rank M = Inr 0"
  shows "is_zero_mat A \<Longrightarrow>
         foldM (get_IR_step matrix_rank) (enumerate n A) ([], [], 0) = Inr ([], [], 0)"
proof (induction A arbitrary: n)
  case Nil
  then show ?case by simp
next
  case (Cons row A)
  then have "is_zero_mat [row]" and "is_zero_mat A" by (simp_all add: is_zero_mat_def)
  with Cons.IH rank0 show ?case
    by (simp add: get_IR_step_def ebind_def)
qed

lemma get_IR_zero:
  assumes "\<forall>M. is_zero_mat M \<longrightarrow> matrix_rank M = Inr 0" and "is_zero_mat A"
  shows "get_IR matrix_rank A = Inr ([], [])"
  using get_IR_loop_zero [OF assms, of 0] by (simp add: get_IR_def ebind_def)

lemma uncompress_slice_zero:
  assumes rank0: "\<forall>M. is_zero_mat M \<longrightarrow> matrix_rank M = Inr 0" and z: "is_zero_mat WtP"
  shows "uncompress_slice matrix_rank eigh WtP l RK = Inr (zeros (nrows RK) (nrows RK))"
  using get_IR_zero [OF rank0 z] rank0 z
  by (simp add: uncompress_slice_def ebind_def py_assert_def Let_def nrows_def first_cols_def)

lemma vdot_zero:
  "list_all is_finite r \<Longrightarrow> list_all (\<lambda>x. x = Fin 0) z \<Longrightarrow> vdot r z = Fin 0"
proof (induction r arbitrary: z)
  case Nil
  then show ?case by (simp add: vdot_def fl_sum_def)
next
  case (Cons x r)
  show ?case
  proof (cases z)
    case Nil
    then show ?thesis by (simp add: vdot_def fl_sum_def)
  next
    case (Cons y z')
    with Cons.prems have y: "y = Fin 0" and z': "list_all (\<lambda>x. x = Fin 0) z'"
      and r: "list_all is_finite r" by simp_all
    from Cons.prems obtain a where x: "x = Fin a" by (cases x) simp_all
    from Cons.IH [OF r z'] have "fl_sum (map2 fl_mul r z') = Fin 0" by (simp add: vdot_def)
    then show ?thesis using Cons x y by (simp add: vdot_def fl_sum_def)
  qed
qed

lemma compress_slice_zero:
  assumes fin: "finite_mat RK" and shape: "has_shape NS k RK" and pos: "0 < NS" "0 < k"
  shows "compress_slice RK l (zeros NS NS) = Inr (zeros (min (2 * l + 1) k) NS)"
proof -
  define W where "W = first_cols (2 * l + 1) RK"
  define k' where "k' = min (2 * l + 1) k"
  have W: "has_shape NS k' W"
    using shape by (auto simp: has_shape_def first_cols_def list_all_iff W_def k'_def)
  have ncW: "ncols W = k'" by (rule ncols_shape [OF W pos(1)])
  have kpos: "0 < k'" using pos by (simp add: k'_def)
  have lenT: "length (transpose_m W) = k'" by (simp add: transpose_m_def ncW)
  have rowT: "transpose_m W ! i = col W i" if "i < k'" for i
    using that by (simp add: transpose_m_def ncW)
  have lencol: "length (col W i) = NS" for i
    using W by (simp add: col_def has_shape_def)
  have ncT: "ncols (transpose_m W) = NS"
  proof -
    have "transpose_m W \<noteq> []" using lenT kpos by auto
    then obtain r rs where c: "transpose_m W = r # rs" by (cases "transpose_m W") auto
    then have "r = transpose_m W ! 0" by simp
    also have "\<dots> = col W 0" by (rule rowT [OF kpos])
    finally show ?thesis using c lencol [of 0] by (simp add: ncols_def)
  qed
  have ncZ: "ncols (zeros NS NS) = NS" using pos by (cases NS) (simp_all add: zeros_def ncols_def)
  have fincol: "list_all is_finite (col W i)" if i: "i < k'" for i
  proof -
    have "is_finite (take (2 * l + 1) row ! i)" if "row \<in> set RK" for row
    proof -
      have "length row = k" and "list_all is_finite row"
        using shape fin that by (auto simp: has_shape_def finite_mat_def list_all_iff)
      then show ?thesis using i by (simp add: list_all_length k'_def)
    qed
    then show ?thesis by (simp add: col_def first_cols_def list_all_iff W_def)
  qed
  have zcol: "list_all (\<lambda>x. x = Fin 0) (col (zeros NS NS) j)" if "j < NS" for j
    using that by (simp add: col_def zeros_def list_all_iff)
  have entries: "map (\<lambda>j. vdot r (col (zeros NS NS) j)) [0..<NS] = replicate NS (Fin 0)"
    if "list_all is_finite r" for r
    by (rule nth_equalityI) (simp_all add: vdot_zero [OF that zcol])
  have "map (\<lambda>r. map (\<lambda>j. vdot r (col (zeros NS NS) j)) [0..<NS]) (transpose_m W)
        = replicate k' (replicate NS (Fin 0))"
  proof (rule nth_equalityI)
    show "length (map (\<lambda>r. map (\<lambda>j. vdot r (col (zeros NS NS) j)) [0..<NS]) (transpose_m W))
          = length (replicate k' (replicate NS (Fin 0)))" using lenT by simp
  next
    fix i assume "i < length (map (\<lambda>r. map (\<lambda>j. vdot r (col (zeros NS NS) j)) [0..<NS])
                               (transpose_m W))"
    then have i: "i < k'" using lenT by simp
    then show "map (\<lambda>r. map (\<lambda>j. vdot r (col (zeros NS NS) j)) [0..<NS]) (transpose_m W) ! i
               = replicate k' (replicate NS (Fin 0)) ! i"
      using lenT rowT [OF i] entries [OF fincol [OF i]] by simp
  qed
  moreover have "nrows (zeros NS NS) = NS" by (simp add: nrows_def zeros_def)
  ultimately have "dot (transpose_m W) (zeros NS NS) = Inr (zeros k' NS)"
    unfolding dot_def ncT ncZ by (simp add: zeros_def)
  then show ?thesis
    unfolding compress_slice_def W_def k'_def .
qed

lemmas uncompress_eval = uncompress_slice_def get_IR_def get_IR_step_def ebind_def
  example_matrix_rank_def example_eigh_def is_zero_mat_def first_cols_def reduced_gram_def
  dot_def ncols_def nrows_def col_def vdot_def fl_sum_def take_rows_def take_cols_def
  reconstruct_def transpose_m_def diag_m_def allclose_def bdim_def broadcast_to_def
  py_assert_def clamp_roots_def py_min_def Let_def zeros_def enumerate_eq_zip

text \<open>
  Claim C4 (zero preservation). The rank routine returns 0 on a zero matrix. Then a zero
  \<^verbatim>\<open>WtP\<close> is decompressed to the zero matrix of size \<open>NS \<times> NS\<close>, where \<open>NS\<close> is the
  number of rows of the key, whatever the eigen-solver is: it is not called. And the
  compression \<^verbatim>\<open>np.dot(W.T, Pl)\<close> of the zero slice by a key of finite entries is the
  zero matrix.
\<close>

theorem zero_preservation:
  assumes "\<forall>M. is_zero_mat M \<longrightarrow> matrix_rank M = Inr 0"
  shows "(is_zero_mat WtP \<longrightarrow>
            uncompress_slice matrix_rank eigh WtP l RK = Inr (zeros (nrows RK) (nrows RK))) \<and>
         (finite_mat RK \<and> has_shape NS k RK \<and> 0 < NS \<and> 0 < k \<longrightarrow>
            compress_slice RK l (zeros NS NS) = Inr (zeros (min (2 * l + 1) k) NS))"
proof (intro conjI impI)
  assume "is_zero_mat WtP"
  with assms show "uncompress_slice matrix_rank eigh WtP l RK = Inr (zeros (nrows RK) (nrows RK))"
    by (rule uncompress_slice_zero)
next
  assume "finite_mat RK \<and> has_shape NS k RK \<and> 0 < NS \<and> 0 < k"
  then show "compress_slice RK l (zeros NS NS) = Inr (zeros (min (2 * l + 1) k) NS)"
    by (intro compress_slice_zero) simp_all
qed

theorem zero_preservation_witness:
  "uncompress_slice example_matrix_rank (\<lambda>C. Inl LinAlgError) [[Fin 0, Fin 0]] 0
       [[Fin (1 / 2)], [Fin (1 / 4)]] = Inr [[Fin 0, Fin 0], [Fin 0, Fin 0]] \<and>
   compress_slice [[Fin (1 / 2)], [Fin (1 / 4)]] 0 [[Fin 0, Fin 0], [Fin 0, Fin 0]]
     = Inr [[Fin 0, Fin 0]]"
proof -
  have r: "\<forall>M. is_zero_mat M \<longrightarrow> example_matrix_rank M = Inr 0"
    by (simp add: example_matrix_rank_def)
  have z: "is_zero_mat [[Fin 0, Fin 0]]" by (simp add: is_zero_mat_def)
  have k: "finite_mat [[Fin (1 / 2)], [Fin (1 / 4)]] \<and> has_shape 2 1 [[Fin (1 / 2)], [Fin (1 / 4)]]
           \<and> 0 < (2::nat) \<and> 0 < (1::nat)"
    by (simp add: finite_mat_def has_shape_def)
  from zero_preservation [OF r, where WtP = "[[Fin 0, Fin 0]]" and eigh = "\<lambda>C. Inl LinAlgError"
      and l = 0 and RK = "[[Fin (1 / 2)], [Fin (1 / 4)]]" and NS = 2 and k = 1] z k
  show ?thesis by (simp add: zeros_def nrows_def numeral_2_eq_2)
qed

text \<open>
  Claim C5 (the reconstruction is verified). The hypotheses say that the decompressor
  completes the reconstruction of \<open>P\<close>: some row was retained, and the reduced Gram
  matrix and the reconstruction raise nothing. Then the last statement compares
  \<open>W\<^sup>T P\<close> with \<^verbatim>\<open>WtP\<close> by \<^verbatim>\<open>np.allclose\<close>: whatever the function returns is this
  \<open>P\<close> and has passed the comparison; when the comparison fails the caller gets the
  \<^verbatim>\<open>AssertionError\<close> of that statement (the code's form of the reconstruction
  failure), and when it holds the caller gets \<open>P\<close>.
\<close>

theorem reconstruction_verified:
  assumes "get_IR matrix_rank WtP = Inr (T, inds)" and "inds \<noteq> []"
    and "reduced_gram WtP (first_cols (2 * l + 1) RK) inds = Inr C"
    and "reconstruct eigh C T = Inr P"
  shows "(\<forall>P'. uncompress_slice matrix_rank eigh WtP l RK = Inr P' \<longrightarrow>
            P' = P \<and> (\<exists>M. dot (transpose_m (first_cols (2 * l + 1) RK)) P = Inr M
                           \<and> allclose M WtP = Inr True)) \<and>
         (\<forall>M. dot (transpose_m (first_cols (2 * l + 1) RK)) P = Inr M
                \<and> allclose M WtP = Inr False \<longrightarrow>
            uncompress_slice matrix_rank eigh WtP l RK
              = Inl (AssertionError ''np.allclose(np.dot(W.T, P), WtP)'')) \<and>
         (\<forall>M. dot (transpose_m (first_cols (2 * l + 1) RK)) P = Inr M
                \<and> allclose M WtP = Inr True \<longrightarrow>
            uncompress_slice matrix_rank eigh WtP l RK = Inr P)"
proof -
  have run: "uncompress_slice matrix_rank eigh WtP l RK =
      ebind (dot (transpose_m (first_cols (2 * l + 1) RK)) P) (\<lambda>M.
      ebind (allclose M WtP) (\<lambda>ok.
      ebind (py_assert ok ''np.allclose(np.dot(W.T, P), WtP)'') (\<lambda>_. Inr P)))"
    using assms by (simp add: uncompress_slice_def ebind_def Let_def)
  show ?thesis
    unfolding run
    by (auto simp: ebind_def py_assert_def split: sum.splits if_splits)
qed

theorem reconstruction_verified_witness:
  "uncompress_slice example_matrix_rank example_eigh [[Fin 2, Fin 2]] 0 [[Fin 1], [Fin 1]]
     = Inr [[Fin 1, Fin 1], [Fin 1, Fin 1]] \<and>
   dot (transpose_m (first_cols (2 * 0 + 1) [[Fin 1], [Fin 1]])) [[Fin 1, Fin 1], [Fin 1, Fin 1]]
     = Inr [[Fin 2, Fin 2]] \<and>
   allclose [[Fin 2, Fin 2]] [[Fin 2, Fin 2]] = Inr True \<and>
   dot (transpose_m (first_cols (2 * 0 + 1) [[Fin 1], [Fin 1]])) [[PInf, NInf], [NInf, PInf]]
     = Inr [[NaN, NaN]] \<and>
   allclose [[NaN, NaN]] [[Fin 1, Fin (- 1)]] = Inr False \<and>
   uncompress_slice example_matrix_rank example_eigh [[Fin 1, Fin (- 1)]] 0 [[Fin 1], [Fin 1]]
     = Inl (AssertionError ''np.allclose(np.dot(W.T, P), WtP)'')"
proof -
  have g1: "get_IR example_matrix_rank [[Fin 2, Fin 2]] = Inr ([[Fin 2, Fin 2]], [0])"
    by (simp add: uncompress_eval)
  have c1: "reduced_gram [[Fin 2, Fin 2]] (first_cols (2 * 0 + 1) [[Fin 1], [Fin 1]]) [0]
              = Inr [[Fin 4]]"
    by (simp add: uncompress_eval)
  have r1: "reconstruct example_eigh [[Fin 4]] [[Fin 2, Fin 2]] = Inr [[Fin 1, Fin 1], [Fin 1, Fin 1]]"
    by (simp add: uncompress_eval)
  have d1: "dot (transpose_m (first_cols (2 * 0 + 1) [[Fin 1], [Fin 1]]))
              [[Fin 1, Fin 1], [Fin 1, Fin 1]] = Inr [[Fin 2, Fin 2]]"
    by (simp add: uncompress_eval)
  have a1: "allclose [[Fin 2, Fin 2]] [[Fin 2, Fin 2]] = Inr True"
    by (simp add: uncompress_eval)
  have g2: "get_IR example_matrix_rank [[Fin 1, Fin (- 1)]] = Inr ([[Fin 1, Fin (- 1)]], [0])"
    by (simp add: uncompress_eval)
  have c2: "reduced_gram [[Fin 1, Fin (- 1)]] (first_cols (2 * 0 + 1) [[Fin 1], [Fin 1]]) [0]
              = Inr [[Fin 0]]"
    by (simp add: uncompress_eval)
  have r2: "reconstruct example_eigh [[Fin 0]] [[Fin 1, Fin (- 1)]]
              = Inr [[PInf, NInf], [NInf, PInf]]"
    by (simp add: uncompress_eval)
  have d2: "dot (transpose_m (first_cols (2 * 0 + 1) [[Fin 1], [Fin 1]]))
              [[PInf, NInf], [NInf, PInf]] = Inr [[NaN, NaN]]"
    by (simp add: uncompress_eval)
  have a2: "allclose [[NaN, NaN]] [[Fin 1, Fin (- 1)]] = Inr False"
    by (simp add: uncompress_eval)
  have nonempty: "[0::nat] \<noteq> []" by simp
  from reconstruction_verified [OF g1 nonempty c1 r1] d1 a1
  have pass: "uncompress_slice example_matrix_rank example_eigh [[Fin 2, Fin 2]] 0
                [[Fin 1], [Fin 1]] = Inr [[Fin 1, Fin 1], [Fin 1, Fin 1]]"
    by blast
  from reconstruction_verified [OF g2 nonempty c2 r2] d2 a2
  have fail: "uncompress_slice example_matrix_rank example_eigh [[Fin 1, Fin (- 1)]] 0
                [[Fin 1], [Fin 1]] = Inl (AssertionError ''np.allclose(np.dot(W.T, P), WtP)'')"
    by blast
  from pass d1 a1 d2 a2 fail show ?thesis by blast
qed

text \<open>
  Claim C10 (\<^verbatim>\<open>min\<close> of an empty list). Whenever the decompressor reaches the
  eigenvalue step (some row was retained, the eigendecomposition passed its check) and
  no eigenvalue has a root \<^verbatim>\<open>x**-0.5\<close> that is greater than zero, the list handed to
  \<^verbatim>\<open>min\<close> is empty and the function raises its \<^verbatim>\<open>ValueError\<close>; nothing in the function
  catches it. This happens at the nonzero input \<^verbatim>\<open>WtP = [[1, -3]]\<close>, \<open>l = 0\<close>, with the
  key \<open>[[1], [1]]\<close>, whose reduced Gram matrix is \<open>[[-2]]\<close>.
\<close>

theorem min_of_no_positive_root:
  "(get_IR matrix_rank WtP = Inr (T, inds) \<and> inds \<noteq> [] \<and>
    reduced_gram WtP (first_cols (2 * l + 1) RK) inds = Inr C \<and>
    eigh C = Inr (vals, Ut) \<and>
    dot (diag_m vals) (transpose_m Ut) = Inr LU \<and>
    dot (transpose_m (transpose_m Ut)) LU = Inr R \<and>
    allclose R C = Inr True \<and>
    list_all (\<lambda>x. \<not> fl_gt0 (pow_neg_half x)) vals
    \<longrightarrow> uncompress_slice matrix_rank eigh WtP l RK
          = Inl (ValueError ''min'')) \<and>
   (\<exists>WtP' RK'. \<not> is_zero_mat WtP' \<and>
       uncompress_slice example_matrix_rank example_eigh WtP' 0 RK'
         = Inl (ValueError ''min''))"
proof (intro conjI impI)
  assume a: "get_IR matrix_rank WtP = Inr (T, inds) \<and> inds \<noteq> [] \<and>
    reduced_gram WtP (first_cols (2 * l + 1) RK) inds = Inr C \<and>
    eigh C = Inr (vals, Ut) \<and>
    dot (diag_m vals) (transpose_m Ut) = Inr LU \<and>
    dot (transpose_m (transpose_m Ut)) LU = Inr R \<and>
    allclose R C = Inr True \<and>
    list_all (\<lambda>x. \<not> fl_gt0 (pow_neg_half x)) vals"
  then have "filter fl_gt0 (map pow_neg_half vals) = []"
    by (simp add: filter_empty_conv list_all_iff)
  then have "clamp_roots vals = Inl (ValueError ''min'')"
    by (simp add: clamp_roots_def py_min_def ebind_def)
  with a have "reconstruct eigh C T = Inl (ValueError ''min'')"
    by (simp add: reconstruct_def ebind_def py_assert_def Let_def)
  with a show "uncompress_slice matrix_rank eigh WtP l RK
                 = Inl (ValueError ''min'')"
    by (simp add: uncompress_slice_def ebind_def Let_def)
next
  have "\<not> is_zero_mat [[Fin 1, Fin (- 3)]] \<and>
        uncompress_slice example_matrix_rank example_eigh [[Fin 1, Fin (- 3)]] 0 [[Fin 1], [Fin 1]]
          = Inl (ValueError ''min'')"
    by (simp add: uncompress_eval)
  then show "\<exists>WtP' RK'. \<not> is_zero_mat WtP' \<and>
       uncompress_slice example_matrix_rank example_eigh WtP' 0 RK'
         = Inl (ValueError ''min'')"
    by blast
qed

theorem min_of_no_positive_root_witness:
  "get_IR example_matrix_rank [[Fin 2, Fin (- 5)]] = Inr ([[Fin 2, Fin (- 5)]], [0]) \<and>
   reduced_gram [[Fin 2, Fin (- 5)]] (first_cols (2 * 0 + 1) [[Fin 1], [Fin 1]]) [0]
     = Inr [[Fin (- 3)]] \<and>
   example_eigh [[Fin (- 3)]] = Inr ([Fin (- 3)], [[Fin 1]]) \<and>
   pow_neg_half (Fin (- 3)) = NaN \<and>
   uncompress_slice example_matrix_rank example_eigh [[Fin 2, Fin (- 5)]] 0 [[Fin 1], [Fin 1]]
     = Inl (ValueError ''min'')"
proof -
  have g: "get_IR example_matrix_rank [[Fin 2, Fin (- 5)]] = Inr ([[Fin 2, Fin (- 5)]], [0])"
    by (simp add: uncompress_eval)
  have c: "reduced_gram [[Fin 2, Fin (- 5)]] (first_cols (2 * 0 + 1) [[Fin 1], [Fin 1]]) [0]
             = Inr [[Fin (- 3)]]"
    by (simp add: uncompress_eval)
  have e: "example_eigh [[Fin (- 3)]] = Inr ([Fin (- 3)], [[Fin 1]])"
    by (simp add: example_eigh_def)
  have lu: "dot (diag_m [Fin (- 3)]) (transpose_m [[Fin 1]]) = Inr [[Fin (- 3)]]"
    by (simp add: uncompress_eval)
  have r: "dot (transpose_m (transpose_m [[Fin 1]])) [[Fin (- 3)]] = Inr [[Fin (- 3)]]"
    by (simp add: uncompress_eval)
  have ok: "allclose [[Fin (- 3)]] [[Fin (- 3)]] = Inr True"
    by (simp add: uncompress_eval)
  have neg: "list_all (\<lambda>x. \<not> fl_gt0 (pow_neg_half x)) [Fin (- 3)]" by simp
  have nonempty: "[0::nat] \<noteq> []" by simp
  have p: "pow_neg_half (Fin (- 3)) = NaN" by simp
  from min_of_no_positive_root [THEN conjunct1, rule_format, of example_matrix_rank
      "[[Fin 2, Fin (- 5)]]" "[[Fin 2, Fin (- 5)]]" "[0]" 0 "[[Fin 1], [Fin 1]]" "[[Fin (- 3)]]"
      example_eigh "[Fin (- 3)]" "[[Fin 1]]" "[[Fin (- 3)]]" "[[Fin (- 3)]]"]
    g nonempty c e lu r ok neg
  have "uncompress_slice example_matrix_rank example_eigh [[Fin 2, Fin (- 5)]] 0 [[Fin 1], [Fin 1]]
     = Inl (ValueError ''min'')"
    by blast
  with g c e p show ?thesis by blast
qed

text \<open>
  Claim C2 (clamping of the inverse square roots) fails on the code at an eigenvalue that
  is exactly zero. The code tests the root, not the eigenvalue: \<^verbatim>\<open>0.0**-0.5\<close> is
  \<open>inf\<close>, and \<^verbatim>\<open>inf > 0\<close> holds, so the root counts as positive and is kept. For
  \<^verbatim>\<open>WtP = [[1, -1]]\<close>, \<open>l = 0\<close> and the key \<open>[[0.5], [0.5]]\<close> the reduced Gram matrix is
  \<open>[[0]]\<close>, the diagonal of \<open>D\<close> is \<open>[inf]\<close>, and the function ends in the failure of its
  last assertion. Next to a positive eigenvalue the zero one still gives \<open>inf\<close>, while a
  negative one is clamped as the claim says.
\<close>

theorem zero_eigenvalue_not_clamped:
  "reduced_gram [[Fin 1, Fin (- 1)]] (first_cols (2 * 0 + 1) [[Fin (1 / 2)], [Fin (1 / 2)]]) [0]
     = Inr [[Fin 0]] \<and>
   clamp_roots [Fin 0] = Inr [PInf] \<and>
   clamp_roots [Fin 0, Fin 4] = Inr [PInf, Fin (1 / 2)] \<and>
   clamp_roots [Fin (- 1), Fin 4] = Inr [Fin (1 / 2 * (1 / 10 ^ 15)), Fin (1 / 2)] \<and>
   uncompress_slice example_matrix_rank example_eigh [[Fin 1, Fin (- 1)]] 0
       [[Fin (1 / 2)], [Fin (1 / 2)]]
     = Inl (AssertionError ''np.allclose(np.dot(W.T, P), WtP)'')"
  by (simp add: uncompress_eval)

subsection \<open>Products of matrices with finite entries\<close>

lemma length_fmk [simp]: "length (fmk m n f) = m"
  by (simp add: fmk_def)


lemma nth_nth_fmk: "i < m \<Longrightarrow> j < n \<Longrightarrow> fmk m n f ! i ! j = Fin (f i j)"
  by (simp add: fmk_def)




lemma nrows_fmk [simp]: "nrows (fmk m n f) = m"
  by (simp add: nrows_def)




lemma ent_fmk: "eqr m n (ent (fmk m n f)) f"
  by (simp add: eqr_def ent_def nth_nth_fmk)















lemma tr_tr [simp]: "tr (tr f) = f"
  by (simp add: tr_def)





lemma tr_eqr: "eqr m n f g \<Longrightarrow> eqr n m (tr f) (tr g)"
  by (simp add: eqr_def tr_def)



lemma tr_dgf [simp]: "tr (dgf d) = dgf d"
  by (intro ext) (simp add: tr_def dgf_def)


















section \<open>Claims about the size of the compressed output\<close>

lemma length_concat_const:
  "list_all (\<lambda>r. length r = n) M \<Longrightarrow> length (concat M) = length M * n"
  by (induction M) simp_all

lemma compress_slice_shape:
  assumes RK: "has_shape NS k RK" and Pl: "has_shape NS NS Pl" and k: "0 < NS \<longrightarrow> 0 < k"
  shows "\<exists>M. compress_slice RK l Pl = Inr M \<and> length (concat M) = min (2 * l + 1) k * NS"
proof (cases "NS = 0")
  case True
  with RK Pl have "RK = []" "Pl = []" by (simp_all add: has_shape_def)
  with True show ?thesis
    by (simp add: compress_slice_def first_cols_def transpose_m_def ncols_def nrows_def dot_def)
next
  case False
  then have pos: "0 < NS" "0 < k" using k by simp_all
  define W where "W = first_cols (2 * l + 1) RK"
  define k' where "k' = min (2 * l + 1) k"
  have W: "has_shape NS k' W"
    using RK by (auto simp: has_shape_def first_cols_def list_all_iff W_def k'_def)
  have ncW: "ncols W = k'" by (rule ncols_shape [OF W pos(1)])
  have kpos: "0 < k'" using pos by (simp add: k'_def)
  have lenT: "length (transpose_m W) = k'" by (simp add: transpose_m_def ncW)
  have ncT: "ncols (transpose_m W) = NS"
  proof -
    have "transpose_m W \<noteq> []" using lenT kpos by auto
    then obtain r rs where c: "transpose_m W = r # rs" by (cases "transpose_m W") auto
    then have "r = transpose_m W ! 0" by simp
    also have "\<dots> = col W 0" using kpos by (simp add: transpose_m_def ncW)
    finally show ?thesis using c W by (simp add: ncols_def col_def has_shape_def)
  qed
  have ncP: "ncols Pl = NS" by (rule ncols_shape [OF Pl pos(1)])
  have nrP: "nrows Pl = NS" using Pl by (simp add: nrows_def has_shape_def)
  define M where "M = map (\<lambda>r. map (\<lambda>j. vdot r (col Pl j)) [0..<NS]) (transpose_m W)"
  have "dot (transpose_m W) Pl = Inr M"
    unfolding dot_def ncT ncP nrP M_def by simp
  moreover have "length (concat M) = k' * NS"
    using length_concat_const [of NS M] lenT by (simp add: M_def list_all_iff)
  ultimately show ?thesis
    unfolding compress_slice_def W_def k'_def by blast
qed

lemma mapM_enumerate:
  "(\<forall>i<length xs. \<exists>M. f (a + i, xs ! i) = Inr M \<and> g M = h (a + i)) \<Longrightarrow>
   \<exists>cs. mapM f (enumerate a xs) = Inr cs \<and> map g cs = map h [a..<a + length xs]"
proof (induction xs arbitrary: a)
  case Nil
  then show ?case by simp
next
  case (Cons x xs)
  from Cons.prems [rule_format, of 0] obtain M where M: "f (a, x) = Inr M" "g M = h a" by auto
  have "\<forall>i<length xs. \<exists>M. f (Suc a + i, xs ! i) = Inr M \<and> g M = h (Suc a + i)"
    using Cons.prems by (metis add_Suc add_Suc_right length_Cons not_less_eq nth_Cons_Suc)
  from Cons.IH [OF this] obtain cs where
    cs: "mapM f (enumerate (Suc a) xs) = Inr cs" "map g cs = map h [Suc a..<Suc a + length xs]"
    by blast
  have "a < a + length (x # xs)" by simp
  from upt_conv_Cons [OF this]
  have "[a..<a + length (x # xs)] = a # [Suc a..<Suc a + length xs]" by simp
  with M cs show ?case by simp
qed

lemma sum_odd: "sum_list (map (\<lambda>l. 2 * l + 1) [0..<n]) = n ^ 2"
  by (induction n) (simp_all add: power2_eq_square)

lemma sum_list_mult_const: "sum_list (map (\<lambda>l. f l * c) xs) = (c::nat) * sum_list (map f xs)"
  by (induction xs) (simp_all add: add_mult_distrib2)

lemma gen_random_key_shape:
  assumes "params ''n_max'' = Some N" "params ''l_max'' = Some L" "params ''n_Z'' = Some S"
  shows "\<exists>RK. gen_random_key params sample = Inr RK
              \<and> has_shape (N * S) (min (N * S) (2 * L + 1)) RK"
  using assms
  by (simp add: gen_random_key_def lookup_def ebind_def Let_def has_shape_def list_all_iff)

lemma true_compression:
  assumes "2 * L + 1 < NS"
  shows "NS * (L + 1) ^ 2 < ps_len NS L"
proof -
  have "2 \<le> NS" using assms by simp
  have "2 * ((L + 1) * NS) + 2 \<le> (2 * L + 3) * NS"
    using \<open>2 \<le> NS\<close> by (simp add: algebra_simps)
  also have "\<dots> \<le> (NS + 1) * NS" using assms by (intro mult_le_mono1) simp
  finally have "(L + 1) * NS < tri NS" by (simp add: tri_def mult.commute)
  then have "(L + 1) * ((L + 1) * NS) < (L + 1) * tri NS" by (rule mult_less_mono2) simp
  moreover have "NS * (L + 1) ^ 2 = (L + 1) * ((L + 1) * NS)"
    by (simp add: power2_eq_square algebra_simps)
  ultimately show ?thesis by (simp only: ps_len_tri)
qed

lemma length_concat_concat: "length (concat (map concat cs)) = n_short cs"
  by (induction cs) (simp_all add: n_short_def)

lemma compress_ps_length:
  assumes "params ''n_max'' = Some N" "params ''l_max'' = Some L" "params ''n_Z'' = Some S"
    and "ps2slices ps (N * S) L = Inr full" and "length full = L + 1"
    and "comp_slices RK full = Inr cs"
  shows "\<exists>v. compress_ps linalg_norm (Some ps2slices) ps params RK norm_arg = Inr v \<and> length v = n_short cs"
  using assms compress_ps_fold [OF assms(5), of RK]
  by (simp add: compress_ps_def lookup_def ebind_def length_concat_concat del: upt_Suc)

lemma driver_count:
  assumes "params ''n_max'' = Some N" "params ''l_max'' = Some L" "params ''n_Z'' = Some S"
    and "length ps = ps_len (N * S) L"
  shows "\<exists>RK full cs.
           gen_random_key params sample = Inr RK \<and>
           ps2slices ps (N * S) L = Inr full \<and>
           comp_slices RK full = Inr cs \<and>
           (\<exists>v. compress_ps linalg_norm (Some ps2slices) ps params RK norm_arg = Inr v
                \<and> length v = n_short cs) \<and>
           n_short cs = N * S * sum_list (map (\<lambda>l. min (2 * l + 1) (N * S)) [0..<L + 1]) \<and>
           (2 * L + 1 \<le> N * S \<longrightarrow> n_short cs = N * S * (L + 1) ^ 2) \<and>
           (2 * L + 1 < N * S \<longrightarrow> n_short cs < length ps)"
proof -
  define NS where "NS = N * S"
  define k where "k = min NS (2 * L + 1)"
  obtain RK where RK: "gen_random_key params sample = Inr RK" "has_shape NS k RK"
    using gen_random_key_shape [OF assms(1-3)] unfolding NS_def k_def by blast
  have kpos: "0 < NS \<longrightarrow> 0 < k" by (simp add: k_def)
  obtain full where full: "ps2slices ps NS L = Inr full" "length full = L + 1"
      "list_all (\<lambda>M. has_shape NS NS M \<and> symmetric_m M) full"
  proof (cases "ps2slices ps NS L")
    case (Inl e)
    with ps2slices_cases [of ps NS L] assms(4) show ?thesis
      by (simp add: err_short_def ps_len_tri NS_def)
  next
    case (Inr full)
    with ps2slices_cases [of ps NS L] have "slices_inv (L + 1) NS full" by simp
    from slices_inv_shape_sym [OF this] Inr that show ?thesis by blast
  qed
  let ?g = "\<lambda>M :: mat. length (concat M)"
  let ?h = "\<lambda>l. min (2 * l + 1) k * NS"
  have "\<forall>i<length full. \<exists>M. (\<lambda>(l, Pl). compress_slice RK l Pl) (0 + i, full ! i) = Inr M
                              \<and> ?g M = ?h (0 + i)"
  proof (intro allI impI)
    fix i assume "i < length full"
    with full(3) have "has_shape NS NS (full ! i)" by (simp add: list_all_length)
    from compress_slice_shape [OF RK(2) this kpos, of i]
    show "\<exists>M. (\<lambda>(l, Pl). compress_slice RK l Pl) (0 + i, full ! i) = Inr M \<and> ?g M = ?h (0 + i)"
      by simp
  qed
  from mapM_enumerate [OF this] obtain cs where
    cs: "comp_slices RK full = Inr cs" "map ?g cs = map ?h [0..<L + 1]"
    using full(2) by (auto simp: comp_slices_def)
  have hk: "map ?h [0..<L + 1] = map (\<lambda>l. min (2 * l + 1) NS * NS) [0..<L + 1]"
    by (rule map_cong) (auto simp: k_def)
  have n: "n_short cs = NS * sum_list (map (\<lambda>l. min (2 * l + 1) NS) [0..<L + 1])"
    unfolding n_short_def cs(2) hk by (rule sum_list_mult_const)
  have eq: "n_short cs = NS * (L + 1) ^ 2" if "2 * L + 1 \<le> NS"
  proof -
    have "map (\<lambda>l. min (2 * l + 1) NS) [0..<L + 1] = map (\<lambda>l. 2 * l + 1) [0..<L + 1]"
      using that by (intro map_cong) auto
    then show ?thesis unfolding n by (simp only: sum_odd)
  qed
  have lt: "n_short cs < length ps" if "2 * L + 1 < NS"
    using eq that true_compression [OF that] assms(4) by (simp add: NS_def)
  have v: "\<exists>v. compress_ps linalg_norm (Some ps2slices) ps params RK norm_arg = Inr v
               \<and> length v = n_short cs"
    using full(1,2) cs(1) unfolding NS_def by (intro compress_ps_length [OF assms(1-3)])
  show ?thesis
    using RK(1) full(1) cs(1) v n eq lt unfolding NS_def by blast
qed

text \<open>
  Claim C7 (compression ratio). \<^verbatim>\<open>gen_random_key\<close> makes a key of \<open>min(N S, 2L+1)\<close>
  columns, so the slice \<open>l\<close> is compressed to \<open>min(2l+1, N S)\<close> rows of \<open>N S\<close> entries
  and the count \<^verbatim>\<open>n_short\<close> is \<open>N S\<close> times the sum over \<open>l = 0..L\<close> of
  \<open>min(2l+1, N S)\<close> (lemma \<open>driver_count\<close>), which is \<open>N S (L+1)\<^sup>2\<close> when
  \<open>2L+1 \<le> N S\<close> only. With the parameters of the notebook for a dataset of one species,
  \<open>N = 6\<close>, \<open>L = 3\<close>, \<open>S = 1\<close>, and a vector of the asserted length 84, the count is
  \<open>6 (1 + 3 + 5 + 6) = 90\<close> for every key the generator makes, and the driver's
  \<^verbatim>\<open>assert n_short == N*S*(L+1)**2\<close> fails against 96. The same happens at
  \<open>N = S = 1\<close>, \<open>L = 1\<close> with the unit vector \<open>[1, 0]\<close>: the count is 2 against 4.
\<close>

theorem driver_count_below_assertion:
  "length (Fin 1 # replicate 83 (Fin 0)) = ps_len (6 * 1) 3 \<and>
   (\<forall>sample. \<exists>RK full cs.
      gen_random_key one_species_params sample = Inr RK \<and>
      ps2slices (Fin 1 # replicate 83 (Fin 0)) (6 * 1) 3 = Inr full \<and>
      comp_slices RK full = Inr cs \<and>
      n_short cs = 90 \<and>
      py_assert (n_short cs = 6 * 1 * (3 + 1) ^ 2) ''n_short == N*S*(L+1)**2''
        = Inl (AssertionError ''n_short == N*S*(L+1)**2'')) \<and>
   length [Fin 1, Fin 0] = ps_len (1 * 1) 1 \<and>
   gen_random_key narrow_params (\<lambda>i j. 1 / 2) = Inr [[Fin (1 / 2)]] \<and>
   ps2slices [Fin 1, Fin 0] (1 * 1) 1 = Inr [[[Fin 1]], [[Fin 0]]] \<and>
   norm2 (concat (concat [[[Fin 1]], [[Fin 0]]])) = Fin 1 \<and>
   comp_slices [[Fin (1 / 2)]] [[[Fin 1]], [[Fin 0]]] = Inr [[[Fin (1 / 2)]], [[Fin 0]]] \<and>
   n_short [[[Fin (1 / 2)]], [[Fin 0]]] = 2 \<and>
   py_assert (n_short [[[Fin (1 / 2)]], [[Fin 0]]] = 1 * 1 * (1 + 1) ^ 2)
       ''n_short == N*S*(L+1)**2''
     = Inl (AssertionError ''n_short == N*S*(L+1)**2'')"
proof -
  have p: "one_species_params ''n_max'' = Some 6" "one_species_params ''l_max'' = Some 3"
    "one_species_params ''n_Z'' = Some 1"
    by (simp_all add: one_species_params_def)
  have len: "length (Fin 1 # replicate 83 (Fin 0)) = ps_len (6 * 1) 3" by (simp add: ps_len_def)
  have sum: "sum_list (map (\<lambda>l. min (2 * l + 1) (6 * 1)) [0..<3 + 1]) = (15::nat)"
    by (simp add: upt_rec)
  have big: "\<exists>RK full cs.
      gen_random_key one_species_params sample = Inr RK \<and>
      ps2slices (Fin 1 # replicate 83 (Fin 0)) (6 * 1) 3 = Inr full \<and>
      comp_slices RK full = Inr cs \<and>
      n_short cs = 90 \<and>
      py_assert (n_short cs = 6 * 1 * (3 + 1) ^ 2) ''n_short == N*S*(L+1)**2''
        = Inl (AssertionError ''n_short == N*S*(L+1)**2'')" for sample
  proof -
    from driver_count [OF p len, of sample norm2 False]
    obtain RK full cs where run:
      "gen_random_key one_species_params sample = Inr RK"
      "ps2slices (Fin 1 # replicate 83 (Fin 0)) (6 * 1) 3 = Inr full"
      "comp_slices RK full = Inr cs"
      "n_short cs = 6 * 1 * sum_list (map (\<lambda>l. min (2 * l + 1) (6 * 1)) [0..<3 + 1])"
      by blast
    from run(4) have n: "n_short cs = 90" unfolding sum by simp
    then have "py_assert (n_short cs = 6 * 1 * (3 + 1) ^ 2) ''n_short == N*S*(L+1)**2''
                 = Inl (AssertionError ''n_short == N*S*(L+1)**2'')"
      by (simp add: py_assert_def)
    with run(1-3) n show ?thesis by blast
  qed
  have small: "length [Fin 1, Fin 0] = ps_len (1 * 1) 1 \<and>
   gen_random_key narrow_params (\<lambda>i j. 1 / 2) = Inr [[Fin (1 / 2)]] \<and>
   ps2slices [Fin 1, Fin 0] (1 * 1) 1 = Inr [[[Fin 1]], [[Fin 0]]] \<and>
   norm2 (concat (concat [[[Fin 1]], [[Fin 0]]])) = Fin 1 \<and>
   comp_slices [[Fin (1 / 2)]] [[[Fin 1]], [[Fin 0]]] = Inr [[[Fin (1 / 2)]], [[Fin 0]]] \<and>
   n_short [[[Fin (1 / 2)]], [[Fin 0]]] = 2 \<and>
   py_assert (n_short [[[Fin (1 / 2)]], [[Fin 0]]] = 1 * 1 * (1 + 1) ^ 2)
       ''n_short == N*S*(L+1)**2''
     = Inl (AssertionError ''n_short == N*S*(L+1)**2'')"
    by (simp add: narrow_params_def gen_random_key_def lookup_def ebind_def Let_def ps_len_def
        ps2slices_def ps2slices_n1_def ps2slices_n2_def ps2slices_l_def zeros3_def zeros_def
        set_entry_def comp_slices_def compress_slice_def dot_def transpose_m_def first_cols_def
        ncols_def nrows_def col_def vdot_def fl_sum_def n_short_def upt_rec power2_eq_square
        py_assert_def norm2_def)
  from len big small show ?thesis by blast
qed

end
